theory Spec2Isabelle
  imports Complex_Main "HOL-Library.AList"
begin

section \<open>The event handler of the in-game event system (scripts.py)\<close>

text \<open>
  A shallow embedding of \<^verbatim>\<open>evennia/contrib/events/scripts.py\<close>: the global
  \<^verbatim>\<open>EventHandler\<close> script, the \<^verbatim>\<open>TimeEventScript\<close> data that
  \<^verbatim>\<open>del_event\<close> touches, and \<^verbatim>\<open>complete_task\<close>.

  Conventions of the embedding.
  \<^item> A Python class is a value \<open>PyClass module name bases\<close>; the bases are classes
    again, so the (finite, acyclic) ancestor graph is unfolded into a tree. The source
    never remembers which classes it has visited, so a class reached along two paths is
    visited twice by the source and appears twice in the tree.
  \<^item> A typeclassed object is its database id together with its class; \<open>is\<close> and
    \<open>==\<close> on objects are equality of these values.
  \<^item> Dictionaries that are only looked up are maps; dictionaries whose items are
    iterated are association lists in iteration order.
  \<^item> A point in time (\<^verbatim>\<open>datetime\<close>) is the exact number of seconds since
    \<^verbatim>\<open>datetime.min\<close>, a duration (\<^verbatim>\<open>timedelta\<close>, \<^verbatim>\<open>total_seconds()\<close>) an exact
    number of seconds, both rational. How \<^verbatim>\<open>timedelta(seconds=...)\<close> turns a number
    into a duration (rounding to microseconds, or \<^verbatim>\<open>OverflowError\<close>) is a parameter
    of \<^verbatim>\<open>set_task\<close>.
  \<^item> A local variable whose name is also a field of a record here is renamed
    (\<^verbatim>\<open>task_id\<close> is \<open>tid\<close>, \<^verbatim>\<open>events\<close> is \<open>evs\<close>).
  \<^item> Every method returns the handler it leaves behind and the list of externally
    visible effects (log lines, channel messages, timers armed, fragments run) in
    program order; an exception raised to the caller is a value \<open>Inl error\<close>.
\<close>

subsection \<open>Data\<close>

datatype pyclass = PyClass (cls_module: string) (cls_name: string) (cls_bases: "pyclass list")

datatype obj = Obj (obj_id: int) (obj_type: pyclass)

type_synonym time = rat

text \<open>The dictionary stored for one fragment by \<^verbatim>\<open>add_event\<close> and \<^verbatim>\<open>edit_event\<close>.\<close>

record event =
  created_on :: time
  author :: "obj option"
  valid :: bool
  code :: string
  parameters :: string
  updated_on :: "time option"
  updated_by :: "obj option"

text \<open>The copy that \<^verbatim>\<open>get_events\<close> hands out: the stored dictionary plus
  \<^verbatim>\<open>"obj"\<close>, \<^verbatim>\<open>"name"\<close> and \<^verbatim>\<open>"number"\<close>.\<close>

record event_def = event +
  ev_obj :: obj
  ev_name :: string
  ev_number :: int

text \<open>An event type is the tuple \<^verbatim>\<open>(variables, help_text, custom_add, custom_call)\<close>;
  \<^verbatim>\<open>variables\<close> is \<^verbatim>\<open>None\<close> for the invalidate sentinel. The on-add callback is
  only called by \<^verbatim>\<open>add_event\<close>; it is kept as the callback's name.\<close>

datatype etype = EType
  (et_variables: "string list option")
  (et_help: string)
  (et_custom_add: "string option")
  (et_custom_call: "(event_def list \<Rightarrow> string option \<Rightarrow> event_def list) option")

text \<open>A namespace (\<^verbatim>\<open>locals\<close>) is a dictionary from variable names to values of
  the scripting language; its items are iterated by \<^verbatim>\<open>set_task\<close>.\<close>

type_synonym 'v namespace = "(string \<times> 'v) list"

type_synonym 'v task = "time \<times> obj \<times> string \<times> 'v namespace"

record 'v handler =
  events :: "obj \<rightharpoonup> (string \<rightharpoonup> event list)"
  to_valid :: "(obj \<times> string \<times> int) list"
  locked :: "(obj \<times> string \<times> int) list"
  task_id :: nat
  tasks :: "(nat \<times> 'v task) list"
  event_types :: "string \<rightharpoonup> (string \<times> etype) list"
  current_locals :: "'v namespace"
  fresh_locals :: "'v namespace"

subsection \<open>\<^verbatim>\<open>get_event_types\<close>\<close>

definition typeclass_name :: "pyclass \<Rightarrow> string" where
  "typeclass_name typeclass = cls_module typeclass @ ''.'' @ cls_name typeclass"

text \<open>\<^verbatim>\<open>event_types.get(typeclass_name, {}).items()\<close>\<close>

definition declared :: "(string \<rightharpoonup> (string \<times> etype) list) \<Rightarrow> pyclass \<Rightarrow> (string \<times> etype) list" where
  "declared ets typeclass = (case ets (typeclass_name typeclass) of None \<Rightarrow> [] | Some d \<Rightarrow> d)"

text \<open>The inner \<^verbatim>\<open>for key, etype in ...\<close> loop; the loop state is \<^verbatim>\<open>invalid\<close> and
  \<^verbatim>\<open>types\<close>.\<close>

fun scan_items :: "(string \<times> etype) list \<Rightarrow> string list \<times> (string \<rightharpoonup> etype)
    \<Rightarrow> string list \<times> (string \<rightharpoonup> etype)" where
  "scan_items [] (invalid, types) = (invalid, types)"
| "scan_items ((key, etype) # rest) (invalid, types) =
     (if key \<in> set invalid then scan_items rest (invalid, types)
      else if et_variables etype = None then scan_items rest (invalid @ [key], types)
      else if types key = None then scan_items rest (invalid, types(key \<mapsto> etype))
      else scan_items rest (invalid, types))"

text \<open>The \<^verbatim>\<open>while not classes.empty()\<close> loop over the FIFO queue.\<close>

function walk_classes :: "(string \<rightharpoonup> (string \<times> etype) list) \<Rightarrow> pyclass list
    \<Rightarrow> string list \<times> (string \<rightharpoonup> etype) \<Rightarrow> (string \<rightharpoonup> etype)" where
  "walk_classes ets [] acc = snd acc"
| "walk_classes ets (typeclass # classes) acc =
     walk_classes ets (classes @ cls_bases typeclass) (scan_items (declared ets typeclass) acc)"
  by pat_completeness auto
termination
proof (relation "measure (\<lambda>(ets, classes, acc). sum_list (map size classes))")
  show "wf (measure (\<lambda>(ets, classes, acc). sum_list (map size classes)))"
    by simp
next
  fix ets :: "string \<rightharpoonup> (string \<times> etype) list"
  fix typeclass classes and acc :: "string list \<times> (string \<rightharpoonup> etype)"
  have "sum_list (map size (cls_bases typeclass)) < size typeclass"
    by (cases typeclass) (simp add: size_list_conv_sum_list)
  then show "((ets, classes @ cls_bases typeclass, scan_items (declared ets typeclass) acc),
      (ets, typeclass # classes, acc))
    \<in> measure (\<lambda>(ets, classes, acc). sum_list (map size classes))"
    by simp
qed

definition get_event_types :: "'v handler \<Rightarrow> obj \<Rightarrow> (string \<rightharpoonup> etype)" where
  "get_event_types self obj = walk_classes (event_types self) [obj_type obj] ([], Map.empty)"

subsection \<open>\<^verbatim>\<open>get_events\<close>\<close>

text \<open>\<^verbatim>\<open>self.db.events.get(obj, {})\<close> and \<^verbatim>\<open>obj_events.get(event_name, [])\<close>\<close>

definition events_of :: "'v handler \<Rightarrow> obj \<Rightarrow> (string \<rightharpoonup> event list)" where
  "events_of self obj = (case events self obj of None \<Rightarrow> Map.empty | Some d \<Rightarrow> d)"

definition fragments_of :: "'v handler \<Rightarrow> obj \<Rightarrow> string \<Rightarrow> event list" where
  "fragments_of self obj event_name =
     (case events_of self obj event_name of None \<Rightarrow> [] | Some l \<Rightarrow> l)"

definition definition_of :: "obj \<Rightarrow> string \<Rightarrow> int \<Rightarrow> event \<Rightarrow> event_def" where
  "definition_of obj event_name number event =
     \<lparr>created_on = created_on event, author = author event, valid = valid event,
      code = code event, parameters = parameters event, updated_on = updated_on event,
      updated_by = updated_by event, ev_obj = obj, ev_name = event_name, ev_number = number\<rparr>"

definition get_events :: "'v handler \<Rightarrow> obj \<Rightarrow> (string \<rightharpoonup> event_def list)" where
  "get_events self obj =
     (let obj_events = events_of self obj
      in (\<lambda>event_name. case obj_events event_name of
            None \<Rightarrow> None
          | Some event_list \<Rightarrow>
              (let new_list = map (\<lambda>(i, event). definition_of obj event_name (int i) event)
                                  (enumerate 0 event_list)
               in if new_list \<noteq> [] then Some new_list else None)))"

subsection \<open>Python lists and strings\<close>

text \<open>\<^verbatim>\<open>xs[i]\<close>: a negative index counts from the end; \<open>None\<close> is \<^verbatim>\<open>IndexError\<close>.\<close>

definition py_index :: "'a list \<Rightarrow> int \<Rightarrow> nat option" where
  "py_index xs i =
     (let n = int (length xs); j = (if i < 0 then i + n else i)
      in if 0 \<le> j \<and> j < n then Some (nat j) else None)"

definition py_getitem :: "'a list \<Rightarrow> int \<Rightarrow> 'a option" where
  "py_getitem xs i = map_option (\<lambda>j. xs ! j) (py_index xs i)"

text \<open>\<^verbatim>\<open>del xs[j]\<close> and \<^verbatim>\<open>xs.insert(j, x)\<close> at a position \<open>j \<le> len(xs)\<close>.\<close>

definition del_at :: "'a list \<Rightarrow> nat \<Rightarrow> 'a list" where
  "del_at xs j = take j xs @ drop (Suc j) xs"

definition insert_at :: "'a list \<Rightarrow> nat \<Rightarrow> 'a \<Rightarrow> 'a list" where
  "insert_at xs j x = take j xs @ x # drop j xs"

text \<open>\<^verbatim>\<open>str.splitlines()\<close> of an 8-bit string: lines end at LF, CR or CR LF.\<close>

fun splitlines_from :: "string \<Rightarrow> string \<Rightarrow> string list" where
  "splitlines_from cur [] = (if cur = [] then [] else [rev cur])"
| "splitlines_from cur [c] =
     (if c = CHR 0x0A \<or> c = CHR 0x0D then [rev cur] else [rev (c # cur)])"
| "splitlines_from cur (c # d # cs) =
     (if c = CHR 0x0A then rev cur # splitlines_from [] (d # cs)
      else if c = CHR 0x0D then
        (if d = CHR 0x0A then rev cur # splitlines_from [] cs
         else rev cur # splitlines_from [] (d # cs))
      else splitlines_from (c # cur) (d # cs))"

definition splitlines :: "string \<Rightarrow> string list" where
  "splitlines s = splitlines_from [] s"

definition is_digit :: "char \<Rightarrow> bool" where
  "is_digit c = (48 \<le> (of_char c :: nat) \<and> (of_char c :: nat) \<le> 57)"

definition int_of_digits :: "string \<Rightarrow> nat" where
  "int_of_digits ds = foldl (\<lambda>n c. 10 * n + ((of_char c :: nat) - 48)) 0 ds"

text \<open>The text \<^verbatim>\<open>  File "<string>", line \<close> that both \<^verbatim>\<open>startswith\<close> and
  \<^verbatim>\<open>RE_LINE_ERROR\<close> look for.\<close>

definition file_string_line :: string where
  "file_string_line = ''  File '' @ [CHR 0x22] @ ''<string>'' @ [CHR 0x22] @ '', line ''"

definition startswith :: "string \<Rightarrow> string \<Rightarrow> bool" where
  "startswith s p = (take (length p) s = p)"

text \<open>\<^verbatim>\<open>RE_LINE_ERROR.search(error)\<close> followed by \<^verbatim>\<open>int(res.group(1))\<close>.\<close>

definition re_line_error :: "string \<Rightarrow> nat option" where
  "re_line_error error =
     (if startswith error file_string_line then
        (let ds = takeWhile is_digit (drop (length file_string_line) error)
         in if ds = [] then None else Some (int_of_digits ds))
      else None)"

subsection \<open>Errors, effects and the interpreter\<close>

text \<open>The exceptions that reach a caller: \<^verbatim>\<open>TypeError\<close> (unknown keyword arguments),
  \<^verbatim>\<open>RuntimeError("this event is locked.")\<close>, \<^verbatim>\<open>OverflowError\<close> (a duration or a date
  out of range), any other exception of a library call, by the name of its class, and
  whatever a fragment raises that is not derived from \<^verbatim>\<open>Exception\<close>.\<close>

datatype error = TypeError | RuntimeError | OverflowError | OtherError string | Uncaught string

datatype lineno = UnknownLine | Lineno nat

text \<open>
  \<open>Exec\<close> marks one \<^verbatim>\<open>exec(event["code"], locals, locals)\<close>; the others are the
  calls to \<^verbatim>\<open>logger\<close>, to the \<^verbatim>\<open>everror\<close> channel and to \<^verbatim>\<open>delay\<close>, with the
  values that are formatted into the message.
  \<^item> \<open>LogErrNotFound event_name obj type\<close>
  \<^item> \<open>LogTraceNeedVariable event_name obj type variable position\<close>
  \<^item> \<open>LogErrEvent event_name obj oid (number + 1) trace\<close>
  \<^item> \<open>ChannelMsg event_name obj oid (number + 1) lineno line repr_evalue\<close>
  \<^item> \<open>LogInfoDeleting event_name number obj code\<close>
  \<^item> \<open>LogErrTask task_id\<close>, \<open>LogTraceNoHandler\<close>
  \<^item> \<open>Delay seconds task_id\<close> is \<^verbatim>\<open>delay(seconds, complete_task, task_id)\<close>
  \<^item> \<open>StoreTask task_id\<close> is the assignment \<^verbatim>\<open>self.db.tasks[task_id] = ...\<close> of
    \<^verbatim>\<open>set_task\<close>, the write of the record to the persistent store, so that the trace
    tells whether it comes before or after the timer is armed
\<close>

datatype effect =
    Exec event_def
  | LogErrNotFound string obj pyclass
  | LogTraceNeedVariable string obj pyclass string nat
  | LogErrEvent string obj int int "string list"
  | ChannelMsg string obj int int lineno string string
  | LogInfoDeleting string int obj string
  | LogErrTask nat
  | LogTraceNoHandler
  | Delay time nat
  | StoreTask nat

text \<open>
  The script language is outside this file. Running a fragment's code on a namespace
  leaves the namespace as the code changed it and either completes, raises
  \<^verbatim>\<open>InterruptEvent\<close>, raises another \<^verbatim>\<open>Exception\<close> (with the lines of
  \<^verbatim>\<open>traceback.format_exception\<close> and \<^verbatim>\<open>repr(evalue)\<close>), or raises something that is
  not an \<^verbatim>\<open>Exception\<close>. What a fragment does to anything but its namespace is not
  modelled.
\<close>

datatype 'v outcome =
    Completed "'v namespace"
  | InterruptEvent "'v namespace"
  | Exception "'v namespace" "string list" string
  | NonException "'v namespace" string

type_synonym 'v interpreter = "string \<Rightarrow> 'v namespace \<Rightarrow> 'v outcome"

subsection \<open>\<^verbatim>\<open>call_event\<close>\<close>

text \<open>\<^verbatim>\<open>**kwargs\<close>: the three keywords the method reads, and the names of all other
  keyword arguments of the call.\<close>

record 'v kwargs =
  kw_number :: "int option"
  kw_parameters :: "string option"
  kw_locals :: "'v namespace option"
  kw_others :: "string list"

definition kwargs_keys :: "'v kwargs \<Rightarrow> string list" where
  "kwargs_keys kwargs =
     (if kw_number kwargs = None then [] else [''number'']) @
     (if kw_parameters kwargs = None then [] else [''parameters'']) @
     (if kw_locals kwargs = None then [] else [''locals'']) @ kw_others kwargs"

definition allowed :: "string list" where
  "allowed = [''number'', ''parameters'', ''locals'']"

text \<open>\<^verbatim>\<open>any(k for k in kwargs if k not in allowed)\<close>: \<^verbatim>\<open>any\<close> tests the truth value of
  each \<^verbatim>\<open>k\<close> that the generator yields, and a string is true when it is not empty.\<close>

definition unknown_keywords :: "'v kwargs \<Rightarrow> bool" where
  "unknown_keywords kwargs =
     list_ex (\<lambda>k. k \<noteq> []) (filter (\<lambda>k. k \<notin> set allowed) (kwargs_keys kwargs))"

text \<open>The loop that binds \<^verbatim>\<open>event_type[0]\<close> to \<^verbatim>\<open>args\<close>; \<open>Inl (variable, i)\<close> is the
  \<^verbatim>\<open>IndexError\<close> branch.\<close>

fun bind_variables :: "string list \<Rightarrow> nat \<Rightarrow> 'v list \<Rightarrow> 'v namespace
    \<Rightarrow> (string \<times> nat) + 'v namespace" where
  "bind_variables [] i args locals = Inr locals"
| "bind_variables (variable # rest) i args locals =
     (if i < length args
      then bind_variables rest (Suc i) args (AList.update variable (args ! i) locals)
      else Inl (variable, i))"

text \<open>The loop over \<^verbatim>\<open>trace\<close> that looks for the line number and the source line;
  the loop state is \<^verbatim>\<open>lineno\<close> and \<^verbatim>\<open>line\<close>.\<close>

fun find_line :: "string \<Rightarrow> string list \<Rightarrow> lineno \<times> string \<Rightarrow> lineno \<times> string" where
  "find_line source [] (lineno, line) = (lineno, line)"
| "find_line source (error # rest) (lineno, line) =
     (if startswith error file_string_line then
        (case re_line_error error of
           None \<Rightarrow> find_line source rest (lineno, line)
         | Some n \<Rightarrow>
             (case py_getitem (splitlines source) (int n - 1) of
                None \<Rightarrow> find_line source rest (Lineno n, line)
              | Some l \<Rightarrow> (Lineno n, l)))
      else find_line source rest (lineno, line))"

definition unknown :: string where
  "unknown = ''|runknown|n''"

text \<open>The \<^verbatim>\<open>for i, event in enumerate(events)\<close> loop. The loop state is the local
  variable \<^verbatim>\<open>number\<close> and the namespace; the result is what \<^verbatim>\<open>call_event\<close>
  returns or raises, the state at that point, and the effects.\<close>

fun run_events :: "'v interpreter \<Rightarrow> obj \<Rightarrow> string \<Rightarrow> int option \<Rightarrow> 'v namespace
    \<Rightarrow> event_def list \<Rightarrow> (error + bool) \<times> int option \<times> 'v namespace \<times> effect list" where
  "run_events exec obj event_name number locals [] = (Inr True, number, locals, [])"
| "run_events exec obj event_name number locals (event # rest) =
     (if \<not> valid event then run_events exec obj event_name number locals rest
      else if number \<noteq> None \<and> Some (ev_number event) \<noteq> number
        then run_events exec obj event_name number locals rest
      else
        (case exec (code event) locals of
           Completed locals' \<Rightarrow>
             (case run_events exec obj event_name number locals' rest of
                (r, number', locals'', effects) \<Rightarrow> (r, number', locals'', Exec event # effects))
         | InterruptEvent locals' \<Rightarrow> (Inr False, number, locals', [Exec event])
         | NonException locals' e \<Rightarrow> (Inl (Uncaught e), number, locals', [Exec event])
         | Exception locals' trace evalue \<Rightarrow>
             (let number = ev_number event;
                  oid = obj_id obj;
                  (lineno, line) = find_line (code event) trace (UnknownLine, unknown)
              in case run_events exec obj event_name (Some number) locals' rest of
                   (r, number', locals'', effects) \<Rightarrow>
                     (r, number', locals'',
                      Exec event
                      # LogErrEvent event_name obj oid (number + 1) trace
                      # ChannelMsg event_name obj oid (number + 1) lineno line evalue
                      # effects))))"

text \<open>"Prepare the locals if necessary": a fresh copy of \<^verbatim>\<open>fresh_locals\<close> with the
  declared variables bound, or a copy of the \<^verbatim>\<open>locals\<close> keyword. \<open>Inl (Some
  (variable, i))\<close> is the \<^verbatim>\<open>IndexError\<close> branch; \<open>Inl None\<close> is the \<^verbatim>\<open>TypeError\<close> that
  Python raises when there is no tuple of variables to iterate.\<close>

definition prepare_locals :: "'v handler \<Rightarrow> etype option \<Rightarrow> 'v list \<Rightarrow> 'v namespace option
    \<Rightarrow> (string \<times> nat) option + 'v namespace" where
  "prepare_locals self event_type args locals =
     (case locals of
        None \<Rightarrow>
          (case event_type of
             None \<Rightarrow> Inl None
           | Some et \<Rightarrow>
               (case et_variables et of
                  None \<Rightarrow> Inl None
                | Some variables \<Rightarrow>
                    (case bind_variables variables 0 args (fresh_locals self) of
                       Inl missing \<Rightarrow> Inl (Some missing)
                     | Inr bound \<Rightarrow> Inr bound)))
      | Some given \<Rightarrow> Inr given)"

text \<open>The fragments of the call: \<^verbatim>\<open>self.get_events(obj).get(event_name, [])\<close>, passed
  through the type's \<^verbatim>\<open>custom_call\<close> when there is one.\<close>

definition linked_events :: "'v handler \<Rightarrow> obj \<Rightarrow> string \<Rightarrow> etype option \<Rightarrow> string option
    \<Rightarrow> event_def list" where
  "linked_events self obj event_name event_type params =
     (let evs = (case get_events self obj event_name of None \<Rightarrow> [] | Some l \<Rightarrow> l)
      in case event_type of
           None \<Rightarrow> evs
         | Some et \<Rightarrow>
             (case et_custom_call et of
                None \<Rightarrow> evs
              | Some custom_call \<Rightarrow> custom_call evs params))"

definition call_event :: "'v interpreter \<Rightarrow> 'v handler \<Rightarrow> obj \<Rightarrow> string \<Rightarrow> 'v list \<Rightarrow> 'v kwargs
    \<Rightarrow> (error + bool) \<times> 'v handler \<times> effect list" where
  "call_event exec self obj event_name args kwargs =
     (let number = kw_number kwargs;
          params = kw_parameters kwargs;
          locals = kw_locals kwargs
      in if unknown_keywords kwargs then (Inl TypeError, self, [])
      else
        (let event_type = get_event_types self obj event_name
         in if locals = None \<and> event_type = None
            then (Inr False, self, [LogErrNotFound event_name obj (obj_type obj)])
         else
           (case prepare_locals self event_type args locals of
              Inl None \<Rightarrow> (Inl TypeError, self, [])
            | Inl (Some (variable, i)) \<Rightarrow>
                (Inr False, self, [LogTraceNeedVariable event_name obj (obj_type obj) variable i])
            | Inr locals \<Rightarrow>
                (let evs = linked_events self obj event_name event_type params
                 in case run_events exec obj event_name number locals evs of
                      (r, number', locals', effects) \<Rightarrow>
                        (r, self\<lparr>current_locals := locals'\<rparr>, effects)))))"

subsection \<open>\<^verbatim>\<open>del_event\<close>\<close>

text \<open>A script attached to an object, with the attributes \<^verbatim>\<open>del_event\<close> reads:
  whether it is a \<^verbatim>\<open>TimeEventScript\<close>, \<^verbatim>\<open>script.obj\<close>, \<^verbatim>\<open>script.db.event_name\<close>
  and \<^verbatim>\<open>script.db.number\<close> (both may be \<^verbatim>\<open>None\<close>).\<close>

record script =
  is_time_event :: bool
  script_obj :: obj
  script_event_name :: "string option"
  script_number :: "int option"
  is_active :: bool

text \<open>Modelled from the spec: \<^verbatim>\<open>DefaultScript.stop\<close> is not part of this file; the spec
  says of a trigger bound to the deleted fragment only that it "is stopped". A stopped
  script is marked as no longer active.\<close>

definition stop :: "script \<Rightarrow> script" where
  "stop s = s\<lparr>is_active := False\<rparr>"

text \<open>The \<^verbatim>\<open>while i < len(self.db.to_valid)\<close> loop. The index \<^verbatim>\<open>i\<close> is an integer
  that starts at 0 and is never negative when the condition is tested (\<^verbatim>\<open>i -= 1\<close>
  is followed by \<^verbatim>\<open>i += 1\<close>).\<close>

function renumber_to_valid :: "obj \<Rightarrow> string \<Rightarrow> int \<Rightarrow> int \<Rightarrow> (obj \<times> string \<times> int) list
    \<Rightarrow> (obj \<times> string \<times> int) list" where
  "renumber_to_valid obj event_name number i tv =
     (if 0 \<le> i \<and> i < int (length tv) then
        (case tv ! nat i of (t_obj, t_event_name, t_number) \<Rightarrow>
           if obj = t_obj \<and> event_name = t_event_name then
             (if t_number = number then
                renumber_to_valid obj event_name number ((i - 1) + 1) (del_at tv (nat i))
              else if t_number > number then
                renumber_to_valid obj event_name number (i + 1)
                  (del_at (insert_at tv (nat i) (t_obj, t_event_name, t_number - 1)) (nat (i + 1)))
              else renumber_to_valid obj event_name number (i + 1) tv)
           else renumber_to_valid obj event_name number (i + 1) tv)
      else tv)"
  by pat_completeness auto
termination
  by (relation "measure (\<lambda>(obj, event_name, number, i, tv). nat (2 * int (length tv) - i))")
     (auto simp: del_at_def insert_at_def)

declare renumber_to_valid.simps [simp del]

text \<open>The \<^verbatim>\<open>for i, line in enumerate(self.db.locked)\<close> loop, which assigns to the
  position it has just read.\<close>

function renumber_locked :: "obj \<Rightarrow> string \<Rightarrow> int \<Rightarrow> nat \<Rightarrow> (obj \<times> string \<times> int) list
    \<Rightarrow> (obj \<times> string \<times> int) list" where
  "renumber_locked obj event_name number i lk =
     (if i < length lk then
        (case lk ! i of (t_obj, t_event_name, t_number) \<Rightarrow>
           if obj = t_obj \<and> event_name = t_event_name then
             (if number < t_number then
                renumber_locked obj event_name number (Suc i)
                  (lk[i := (t_obj, t_event_name, t_number - 1)])
              else renumber_locked obj event_name number (Suc i) lk)
           else renumber_locked obj event_name number (Suc i) lk)
      else lk)"
  by pat_completeness auto
termination
  by (relation "measure (\<lambda>(obj, event_name, number, i, lk). length lk - i)") auto

declare renumber_locked.simps [simp del]

text \<open>The loop over \<^verbatim>\<open>list(obj.scripts.all())\<close>, written over all scripts of the
  database: \<^verbatim>\<open>obj.scripts.all()\<close> are those attached to \<^verbatim>\<open>obj\<close>. \<^verbatim>\<open>None\<close> is equal to
  no number and, in Python 2, greater than none.\<close>

fun update_scripts :: "obj \<Rightarrow> string \<Rightarrow> int \<Rightarrow> script list \<Rightarrow> script list" where
  "update_scripts obj event_name number [] = []"
| "update_scripts obj event_name number (s # rest) =
     (if script_obj s = obj \<and> is_time_event s
         \<and> script_obj s = obj \<and> script_event_name s = Some event_name then
        (case script_number s of
           None \<Rightarrow> s
         | Some n \<Rightarrow>
             if n = number then stop s
             else if n > number then s\<lparr>script_number := Some (n - 1)\<rparr>
             else s)
      else s) # update_scripts obj event_name number rest"

text \<open>\<^verbatim>\<open>del_event\<close> takes and returns the scripts of the database next to the
  handler.\<close>

definition del_event :: "'v handler \<Rightarrow> script list \<Rightarrow> obj \<Rightarrow> string \<Rightarrow> int
    \<Rightarrow> (error + unit) \<times> 'v handler \<times> script list \<times> effect list" where
  "del_event self scripts obj event_name number =
     (let obj_events = events_of self obj;
          evs = fragments_of self obj event_name
      in if (obj, event_name, number) \<in> set (locked self) then (Inl RuntimeError, self, scripts, [])
      else
        (case py_index evs number of
           None \<Rightarrow> (Inr (), self, scripts, [])
         | Some j \<Rightarrow>
             (let self = self\<lparr>events := (events self)(obj \<mapsto> obj_events(event_name \<mapsto> del_at evs j))\<rparr>;
                  self = self\<lparr>to_valid := renumber_to_valid obj event_name number 0 (to_valid self)\<rparr>;
                  self = self\<lparr>locked := renumber_locked obj event_name number 0 (locked self)\<rparr>
              in (Inr (), self, update_scripts obj event_name number scripts,
                  [LogInfoDeleting event_name number obj (code (evs ! j))]))))"

subsection \<open>Tasks: \<^verbatim>\<open>set_task\<close>, \<^verbatim>\<open>at_start\<close>, \<^verbatim>\<open>complete_task\<close>\<close>

text \<open>The loop of \<^verbatim>\<open>set_task\<close> over \<^verbatim>\<open>self.ndb.current_locals.items()\<close>.
  \<^verbatim>\<open>dbserialize\<close> (of \<^verbatim>\<open>evennia.utils.dbserialize\<close>) is a parameter:
  \<open>dbserialize value\<close> is \<open>None\<close> when the call returns and \<open>Some e\<close> when it raises
  \<open>e\<close>. The loop catches \<^verbatim>\<open>TypeError\<close> and nothing else: any other exception leaves
  the loop and \<^verbatim>\<open>set_task\<close>.\<close>

fun freeze_locals :: "('v \<Rightarrow> error option) \<Rightarrow> 'v namespace \<Rightarrow> 'v namespace
    \<Rightarrow> error + 'v namespace" where
  "freeze_locals dbserialize [] locals = Inr locals"
| "freeze_locals dbserialize ((key, v) # rest) locals =
     (case dbserialize v of
        None \<Rightarrow> freeze_locals dbserialize rest (AList.update key v locals)
      | Some e \<Rightarrow>
          if e = TypeError then freeze_locals dbserialize rest locals else Inl e)"

text \<open>\<^verbatim>\<open>now + delta\<close>: the sum of a \<^verbatim>\<open>datetime\<close> and a \<^verbatim>\<open>timedelta\<close> is exact, and
  Python raises \<^verbatim>\<open>OverflowError\<close> ("date value out of range") when it is not a date of
  the years 1 to 9999, that is, not within the 3652059 days from \<^verbatim>\<open>datetime.min\<close>.\<close>

definition add_datetime :: "time \<Rightarrow> rat \<Rightarrow> error + time" where
  "add_datetime now delta =
     (if 0 \<le> now + delta \<and> now + delta < 3652059 * 86400 then Inr (now + delta)
      else Inl OverflowError)"

text \<open>\<^verbatim>\<open>set_task\<close>. The parameter \<open>timedelta\<close> is \<^verbatim>\<open>timedelta(seconds=seconds)\<close>: the
  duration that Python builds from the number (rounded to whole microseconds), or the
  exception it raises (\<^verbatim>\<open>OverflowError\<close> beyond 999999999 days). The statements run in
  the order of the source: the duration, the counter, the snapshot, the sum
  \<^verbatim>\<open>now + delta\<close>, the record, the timer; an exception ends the call with the handler
  as it is at that point.\<close>

definition set_task :: "(rat \<Rightarrow> error + rat) \<Rightarrow> ('v \<Rightarrow> error option) \<Rightarrow> time \<Rightarrow> 'v handler
    \<Rightarrow> rat \<Rightarrow> obj \<Rightarrow> string \<Rightarrow> (error + unit) \<times> 'v handler \<times> effect list" where
  "set_task timedelta dbserialize now self seconds obj event_name =
     (case timedelta seconds of
        Inl e \<Rightarrow> (Inl e, self, [])
      | Inr delta \<Rightarrow>
          (let tid = task_id self;
               self = self\<lparr>task_id := task_id self + 1\<rparr>
           in case freeze_locals dbserialize (current_locals self) [] of
                Inl e \<Rightarrow> (Inl e, self, [])
              | Inr locals \<Rightarrow>
                  (case add_datetime now delta of
                     Inl e \<Rightarrow> (Inl e, self, [])
                   | Inr future \<Rightarrow>
                       (Inr (),
                        self\<lparr>tasks := AList.update tid (future, obj, event_name, locals) (tasks self)\<rparr>,
                        [StoreTask tid, Delay seconds tid]))))"

text \<open>The loop of \<^verbatim>\<open>at_start\<close> over \<^verbatim>\<open>tuple(self.db.tasks.items())\<close>.\<close>

fun restart_tasks :: "time \<Rightarrow> (nat \<times> 'v task) list \<Rightarrow> effect list" where
  "restart_tasks now [] = []"
| "restart_tasks now ((tid, (future, obj, event_name, locals)) # rest) =
     (let seconds = future - now;
          seconds = (if seconds < 0 then 0 else seconds)
      in Delay seconds tid # restart_tasks now rest)"

text \<open>\<^verbatim>\<open>at_start\<close>. The registration step \<^verbatim>\<open>connect_event_types\<close>, the helper modules
  (\<^verbatim>\<open>all_from_module\<close>) and the configured \<^verbatim>\<open>EVENTS_HELPERS_LOCATIONS\<close> are
  parameters. Connecting the handler to \<^verbatim>\<open>EventsHandler\<close> and looking up the
  \<^verbatim>\<open>everror\<close> channel have no counterpart in the handler's state here.\<close>

definition dict_update :: "'v namespace \<Rightarrow> 'v namespace \<Rightarrow> 'v namespace" where
  "dict_update d other = foldl (\<lambda>d (k, v). AList.update k v d) d other"

definition at_start :: "((string \<rightharpoonup> (string \<times> etype) list) \<Rightarrow> (string \<rightharpoonup> (string \<times> etype) list))
    \<Rightarrow> (string \<Rightarrow> 'v namespace) \<Rightarrow> string list \<Rightarrow> time \<Rightarrow> 'v handler
    \<Rightarrow> 'v handler \<times> effect list" where
  "at_start connect_event_types all_from_module helpers_locations now self =
     (let self = self\<lparr>event_types := connect_event_types Map.empty\<rparr>;
          self = self\<lparr>current_locals := [], fresh_locals := []\<rparr>;
          addresses = [''evennia.contrib.events.helpers''] @ helpers_locations;
          self = self\<lparr>fresh_locals :=
                   foldl (\<lambda>d address. dict_update d (all_from_module address)) (fresh_locals self) addresses\<rparr>
      in (self, restart_tasks now (tasks self)))"

text \<open>\<^verbatim>\<open>complete_task\<close>. Its first argument is what
  \<^verbatim>\<open>ScriptDB.objects.get(db_key="event_handler")\<close> finds: the handler, or nothing.\<close>

definition complete_task :: "'v interpreter \<Rightarrow> 'v handler option \<Rightarrow> nat
    \<Rightarrow> (error + unit) \<times> 'v handler option \<times> effect list" where
  "complete_task exec db tid =
     (case db of
        None \<Rightarrow> (Inr (), None, [LogTraceNoHandler])
      | Some script \<Rightarrow>
          (case map_of (tasks script) tid of
             None \<Rightarrow> (Inr (), Some script, [LogErrTask tid])
           | Some (delta, obj, event_name, locals) \<Rightarrow>
               (let script = script\<lparr>tasks := AList.delete tid (tasks script)\<rparr>
                in case call_event exec script obj event_name []
                          \<lparr>kw_number = None, kw_parameters = None, kw_locals = Some locals,
                           kw_others = []\<rparr> of
                     (r, script, effects) \<Rightarrow>
                       (map_sum id (\<lambda>_. ()) r, Some script, effects))))"

subsection \<open>Resolution as the specification words it\<close>

text \<open>
  The specification describes \<open>resolve\<close> as a breadth-first traversal of the ancestor
  graph from the object's own type, parents before grandparents, in which the first
  declaration met for a name decides: it is adopted, or, if it is the invalidate
  sentinel, the name is excluded. \<open>breadth_first\<close> lists the types generation by
  generation; \<open>first_declaration\<close> looks a name up in the declarations in that order.
\<close>

definition parents :: "pyclass list \<Rightarrow> pyclass list" where
  "parents cs = concat (map cls_bases cs)"

function breadth_first :: "pyclass list \<Rightarrow> pyclass list" where
  "breadth_first cs = (if cs = [] then [] else cs @ breadth_first (parents cs))"
  by pat_completeness auto
termination
proof (relation "measure (\<lambda>cs. sum_list (map size cs))")
  show "wf (measure (\<lambda>cs. sum_list (map size cs)))" by simp
next
  fix cs :: "pyclass list"
  assume "cs \<noteq> []"
  then have "0 < length cs" by simp
  moreover have "sum_list (map size cs)
      = length cs + sum_list (map size (parents cs)) + length (parents cs)"
  proof (induction cs)
    case Nil
    then show ?case by (simp add: parents_def)
  next
    case (Cons c cs)
    have "size c = 1 + sum_list (map size (cls_bases c)) + length (cls_bases c)"
      by (cases c) (simp add: size_list_conv_sum_list)
    with Cons show ?case by (simp add: parents_def)
  qed
  ultimately show "(parents cs, cs) \<in> measure (\<lambda>cs. sum_list (map size cs))"
    by simp
qed

declare breadth_first.simps [simp del]

definition first_declaration :: "(string \<times> etype) list \<Rightarrow> string \<Rightarrow> etype option" where
  "first_declaration items name =
     (case map_of items name of
        None \<Rightarrow> None
      | Some et \<Rightarrow> if et_variables et = None then None else Some et)"

definition resolve :: "(string \<rightharpoonup> (string \<times> etype) list) \<Rightarrow> pyclass \<Rightarrow> (string \<rightharpoonup> etype)" where
  "resolve ets object_type =
     first_declaration (concat (map (declared ets) (breadth_first [object_type])))"

text \<open>The order in which the queue of \<^verbatim>\<open>get_event_types\<close> hands out the classes.\<close>

function queue_order :: "pyclass list \<Rightarrow> pyclass list" where
  "queue_order [] = []"
| "queue_order (typeclass # classes) = typeclass # queue_order (classes @ cls_bases typeclass)"
  by pat_completeness auto
termination
proof (relation "measure (\<lambda>classes. sum_list (map size classes))")
  show "wf (measure (\<lambda>classes. sum_list (map size classes)))"
    by simp
next
  fix typeclass classes
  have "sum_list (map size (cls_bases typeclass)) < size typeclass"
    by (cases typeclass) (simp add: size_list_conv_sum_list)
  then show "(classes @ cls_bases typeclass, typeclass # classes)
    \<in> measure (\<lambda>classes. sum_list (map size classes))"
    by simp
qed

subsection \<open>Renumbering as the specification words it\<close>

text \<open>
  After fragment \<open>k\<close> of \<open>(obj, event_name)\<close> is deleted, an entry \<open>(obj, event_name, i)\<close>
  of the validation queue or the lock set with \<open>i > k\<close> becomes \<open>(obj, event_name, i - 1)\<close>
  and every other entry stays; a periodic trigger bound to \<open>(obj, event_name, k)\<close> is
  stopped, one bound to a higher index is bound to the index below, and every other
  script stays.
\<close>

definition shift_down :: "obj \<Rightarrow> string \<Rightarrow> int \<Rightarrow> obj \<times> string \<times> int \<Rightarrow> obj \<times> string \<times> int" where
  "shift_down obj event_name k entry =
     (case entry of (t_obj, t_event_name, t_number) \<Rightarrow>
        if t_obj = obj \<and> t_event_name = event_name \<and> t_number > k
        then (t_obj, t_event_name, t_number - 1) else entry)"

definition rebind :: "obj \<Rightarrow> string \<Rightarrow> int \<Rightarrow> script \<Rightarrow> script" where
  "rebind obj event_name k s =
     (if is_time_event s \<and> script_obj s = obj \<and> script_event_name s = Some event_name then
        (case script_number s of
           None \<Rightarrow> s
         | Some n \<Rightarrow> if n = k then stop s
                     else if n > k then s\<lparr>script_number := Some (n - 1)\<rparr> else s)
      else s)"

subsection \<open>Reading the effects\<close>

text \<open>The delays of the timers armed for one task id, and the fragments run.\<close>

fun delays_of :: "nat \<Rightarrow> effect list \<Rightarrow> time list" where
  "delays_of tid [] = []"
| "delays_of tid (Delay seconds t # rest) =
     (if t = tid then seconds # delays_of tid rest else delays_of tid rest)"
| "delays_of tid (_ # rest) = delays_of tid rest"

fun executed :: "effect list \<Rightarrow> event_def list" where
  "executed [] = []"
| "executed (Exec event # rest) = event # executed rest"
| "executed (_ # rest) = executed rest"

subsection \<open>Example data\<close>

text \<open>
  Two room classes, \<open>B\<close> a subclass of \<open>A\<close>. \<open>A\<close> declares the events \<open>say\<close> (two
  variables), \<open>tick\<close> and \<open>enter\<close> (none); \<open>B\<close> marks \<open>say\<close> invalid. Values of the
  script language are integers here, and the negative ones cannot be stored: on them
  the encoder \<open>storable\<close> raises \<^verbatim>\<open>TypeError\<close> and the encoder \<open>picklable\<close> raises another
  exception. \<open>microseconds\<close> builds a duration by rounding to whole microseconds, half
  away from zero, within the range of \<^verbatim>\<open>timedelta\<close>. The example
  interpreter raises \<^verbatim>\<open>InterruptEvent\<close> on the code \<open>deny()\<close>, a
  \<^verbatim>\<open>ZeroDivisionError\<close> on \<open>1/0\<close>, and otherwise sets the variable named like the code
  to 1.
\<close>

definition object_class :: pyclass where
  "object_class = PyClass ''__builtin__'' ''object'' []"

definition class_A :: pyclass where
  "class_A = PyClass ''typeclasses.rooms'' ''A'' [object_class]"

definition class_B :: pyclass where
  "class_B = PyClass ''typeclasses.rooms'' ''B'' [class_A]"

definition room_a :: obj where
  "room_a = Obj 1 class_A"

definition room_b :: obj where
  "room_b = Obj 2 class_B"

definition say_type :: etype where
  "say_type = EType (Some [''speaker'', ''message'']) ''After somebody has spoken.'' None None"

definition plain_type :: etype where
  "plain_type = EType (Some []) [] None None"

definition invalidated :: etype where
  "invalidated = EType None [] None None"

definition example_types :: "string \<rightharpoonup> (string \<times> etype) list" where
  "example_types =
     [''typeclasses.rooms.A'' \<mapsto> [(''say'', say_type), (''tick'', plain_type), (''enter'', plain_type)],
      ''typeclasses.rooms.B'' \<mapsto> [(''say'', invalidated)]]"

definition fragment :: "bool \<Rightarrow> string \<Rightarrow> event" where
  "fragment ok source =
     \<lparr>created_on = 0, author = None, valid = ok, code = source, parameters = [],
      updated_on = None, updated_by = None\<rparr>"

definition example_handler :: "int handler" where
  "example_handler =
     \<lparr>events =
        [room_a \<mapsto>
           [''tick'' \<mapsto> [fragment True ''a'', fragment True ''1/0'', fragment True ''b''],
            ''enter'' \<mapsto> [fragment True ''a'', fragment True ''deny()'', fragment True ''b''],
            ''say'' \<mapsto> [fragment False ''a'', fragment False ''b'', fragment False ''c'']]],
      to_valid = [(room_a, ''say'', 0), (room_a, ''say'', 1), (room_b, ''say'', 2),
                  (room_a, ''say'', 2), (room_a, ''look'', 2)],
      locked = [(room_a, ''say'', 2), (room_b, ''tick'', 5), (room_a, ''look'', 2)],
      task_id = 1,
      tasks = [(0, (10, room_a, ''tick'', [(''x'', 5)]))],
      event_types = example_types,
      current_locals = [(''x'', 5), (''callback'', - 1), (''y'', 0)],
      fresh_locals = []\<rparr>"

definition time_script :: "obj \<Rightarrow> string \<Rightarrow> int \<Rightarrow> script" where
  "time_script obj event_name number =
     \<lparr>is_time_event = True, script_obj = obj, script_event_name = Some event_name,
      script_number = Some number, is_active = True\<rparr>"

definition example_scripts :: "script list" where
  "example_scripts =
     [time_script room_a ''say'' 0, time_script room_a ''say'' 1, time_script room_a ''say'' 2,
      time_script room_b ''say'' 2, time_script room_a ''time'' 2,
      \<lparr>is_time_event = False, script_obj = room_a, script_event_name = Some ''say'',
       script_number = Some 2, is_active = True\<rparr>]"

definition example_exec :: "int interpreter" where
  "example_exec source locals =
     (if source = ''deny()'' then InterruptEvent locals
      else if source = ''1/0'' then
        Exception locals
          [''Traceback (most recent call last):'',
           file_string_line @ ''1, in <module>'',
           ''ZeroDivisionError: integer division or modulo by zero'']
          ''ZeroDivisionError()''
      else Completed (AList.update source 1 locals))"

definition storable :: "int \<Rightarrow> error option" where
  "storable v = (if 0 \<le> v then None else Some TypeError)"


definition round_half_away :: "rat \<Rightarrow> int" where
  "round_half_away x = (if 0 \<le> x then \<lfloor>x + 1 / 2\<rfloor> else \<lceil>x - 1 / 2\<rceil>)"

definition microseconds :: "rat \<Rightarrow> error + rat" where
  "microseconds seconds =
     (let us = round_half_away (seconds * 1000000)
      in if - (999999999 * 86400 * 1000000) \<le> us \<and> us < 1000000000 * 86400 * 1000000
         then Inr (of_int us / 1000000) else Inl OverflowError)"

definition no_kwargs :: "int kwargs" where
  "no_kwargs = \<lparr>kw_number = None, kw_parameters = None, kw_locals = None, kw_others = []\<rparr>"

section \<open>Properties\<close>

subsection \<open>Type registry\<close>

lemma first_declaration_append:
  "first_declaration (xs @ ys) k =
     (if map_of xs k = None then first_declaration ys k else first_declaration xs k)"
  by (auto simp: first_declaration_def map_add_def split: option.splits)

lemma scan_items_types:
  "snd (scan_items items (invalid, types)) =
     (\<lambda>k. if k \<in> set invalid \<or> types k \<noteq> None then types k else first_declaration items k)"
proof (induction items arbitrary: invalid types)
  case Nil
  then show ?case by (auto simp: first_declaration_def)
next
  case (Cons item items)
  obtain key etype where item: "item = (key, etype)" by (cases item)
  show ?case
    unfolding item by (rule ext) (auto simp: Cons.IH first_declaration_def)
qed

lemma scan_items_decided:
  "set (fst (scan_items items (invalid, types))) \<union> dom (snd (scan_items items (invalid, types))) =
   set invalid \<union> dom types \<union> fst ` set items"
proof (induction items arbitrary: invalid types)
  case Nil
  then show ?case by simp
next
  case (Cons item items)
  obtain key etype where item: "item = (key, etype)" by (cases item)
  show ?case
    unfolding item by (auto simp: Cons.IH)
qed

text \<open>What the queue loop computes, in terms of the order in which it visits the
  classes: a name that is already decided keeps its state, any other name gets the
  first declaration met.\<close>

lemma walk_classes_types:
  "walk_classes ets classes (invalid, types) k =
     (if k \<in> set invalid \<or> types k \<noteq> None then types k
      else first_declaration (concat (map (declared ets) (queue_order classes))) k)"
proof (induction classes arbitrary: invalid types rule: queue_order.induct)
  case 1
  then show ?case by (simp add: first_declaration_def)
next
  case (2 typeclass classes)
  obtain invalid' types'
    where s: "scan_items (declared ets typeclass) (invalid, types) = (invalid', types')"
    by (cases "scan_items (declared ets typeclass) (invalid, types)")
  have t: "types' k = (if k \<in> set invalid \<or> types k \<noteq> None then types k
      else first_declaration (declared ets typeclass) k)"
    using scan_items_types [of "declared ets typeclass" invalid types] s by simp
  have "set invalid' \<union> dom types'
      = set invalid \<union> dom types \<union> fst ` set (declared ets typeclass)"
    using scan_items_decided [of "declared ets typeclass" invalid types] s by simp
  then have "(k \<in> set invalid' \<union> dom types')
      = (k \<in> set invalid \<union> dom types \<union> fst ` set (declared ets typeclass))"
    by simp
  then have d: "(k \<in> set invalid' \<or> types' k \<noteq> None) =
      (k \<in> set invalid \<or> types k \<noteq> None \<or> map_of (declared ets typeclass) k \<noteq> None)"
    by (simp add: dom_def map_of_eq_None_iff)
  have "walk_classes ets (typeclass # classes) (invalid, types) k =
      walk_classes ets (classes @ cls_bases typeclass) (invalid', types') k"
    using s by simp
  also have "\<dots> = (if k \<in> set invalid' \<or> types' k \<noteq> None then types' k
      else first_declaration
        (concat (map (declared ets) (queue_order (classes @ cls_bases typeclass)))) k)"
    by (rule "2.IH")
  finally show ?case
    using t d by (auto simp: first_declaration_append)
qed

text \<open>The queue hands the classes out generation by generation. The statement is
  generalised to a queue that holds the rest \<open>xs\<close> of one generation followed by the
  parents of the part \<open>ys\<close> already taken out of it.\<close>

lemma queue_order_generations:
  "queue_order (xs @ parents ys) = xs @ breadth_first (parents (ys @ xs))"
proof (induction "(ys, xs)" arbitrary: ys xs
    rule: measure_induct_rule [where f = "\<lambda>(ys, xs). 2 * sum_list (map size (ys @ xs)) + length xs"])
  case less
  have size_parents: "sum_list (map size cs)
      = length cs + sum_list (map size (parents cs)) + length (parents cs)" for cs
  proof (induction cs)
    case Nil
    then show ?case by (simp add: parents_def)
  next
    case (Cons c cs)
    have "size c = 1 + sum_list (map size (cls_bases c)) + length (cls_bases c)"
      by (cases c) (simp add: size_list_conv_sum_list)
    with Cons show ?case by (simp add: parents_def)
  qed
  show ?case
  proof (cases xs)
    case Nil
    show ?thesis
    proof (cases "parents ys = []")
      case True
      with Nil show ?thesis by (simp add: breadth_first.simps [of "[]"])
    next
      case False
      then have "ys \<noteq> []" by (auto simp: parents_def)
      then have "0 < length ys" by simp
      then have "2 * sum_list (map size ([] @ parents ys)) + length (parents ys)
          < 2 * sum_list (map size (ys @ xs)) + length xs"
        using size_parents [of ys] Nil by simp
      then have "queue_order (parents ys @ parents [])
          = parents ys @ breadth_first (parents ([] @ parents ys))"
        using less [of "[]" "parents ys"] by simp
      moreover have "breadth_first (parents ys) = parents ys @ breadth_first (parents (parents ys))"
        using False by (subst breadth_first.simps) simp
      moreover have "parents [] = []" by (simp add: parents_def)
      ultimately show ?thesis
        using Nil by simp
    qed
  next
    case (Cons x xs')
    have "queue_order (xs' @ parents (ys @ [x])) = xs' @ breadth_first (parents ((ys @ [x]) @ xs'))"
      using less [of "ys @ [x]" xs'] Cons by simp
    moreover have "parents (ys @ [x]) = parents ys @ cls_bases x"
      by (simp add: parents_def)
    ultimately show ?thesis
      using Cons by simp
  qed
qed

lemma queue_order_breadth_first: "queue_order cs = breadth_first cs"
proof (cases "cs = []")
  case True
  then show ?thesis by (simp add: breadth_first.simps [of "[]"])
next
  case False
  have "parents [] = []" by (simp add: parents_def)
  then have "queue_order cs = cs @ breadth_first (parents cs)"
    using queue_order_generations [of cs "[]"] by simp
  also have "\<dots> = breadth_first cs"
    using False by (subst (2) breadth_first.simps) simp
  finally show ?thesis .
qed

lemma get_event_types_resolve:
  "get_event_types self obj = resolve (event_types self) (obj_type obj)"
  unfolding get_event_types_def resolve_def
  by (rule ext) (simp only: walk_classes_types queue_order_breadth_first, simp)

text \<open>
  Claim C3. Resolving the event types of an object walks the ancestors of its class
  breadth-first from the class itself, and for each name the first declaration met
  decides: a declaration with variables is the result for that name, the invalidate
  sentinel leaves the name out, and no class further away changes that. This is
  \<open>resolve\<close>. In particular, when \<open>B\<close> has the base \<open>A\<close>, \<open>A\<close> declares \<open>foo\<close> and \<open>B\<close>
  marks \<open>foo\<close> invalid, an object of class \<open>B\<close> has no event type \<open>foo\<close> and an object
  of class \<open>A\<close> has the one \<open>A\<close> declares.
\<close>

theorem get_event_types_breadth_first:
  "get_event_types self obj = resolve (event_types self) (obj_type obj)
   \<and> (A \<in> set (cls_bases B)
        \<and> map_of (declared (event_types self) A) foo = Some d \<and> et_variables d \<noteq> None
        \<and> map_of (declared (event_types self) B) foo = Some s \<and> et_variables s = None
      \<longrightarrow> get_event_types self (Obj i B) foo = None
          \<and> get_event_types self (Obj j A) foo = Some d)"
proof -
  have first: "resolve ets c k = first_declaration (declared ets c) k"
    if "map_of (declared ets c) k \<noteq> None" for ets c k
  proof -
    have "breadth_first [c] = [c] @ breadth_first (parents [c])"
      by (subst breadth_first.simps) simp
    then show ?thesis
      using that by (auto simp: resolve_def first_declaration_append)
  qed
  show ?thesis
    by (auto simp: get_event_types_resolve first first_declaration_def)
qed

theorem get_event_types_breadth_first_witness:
  "class_A \<in> set (cls_bases class_B)
   \<and> map_of (declared (event_types example_handler) class_A) ''say'' = Some say_type
   \<and> et_variables say_type \<noteq> None
   \<and> map_of (declared (event_types example_handler) class_B) ''say'' = Some invalidated
   \<and> et_variables invalidated = None
   \<and> get_event_types example_handler room_b ''say'' = None
   \<and> get_event_types example_handler room_a ''say'' = Some say_type"
proof -
  have h: "class_A \<in> set (cls_bases class_B)
     \<and> map_of (declared (event_types example_handler) class_A) ''say'' = Some say_type
     \<and> et_variables say_type \<noteq> None
     \<and> map_of (declared (event_types example_handler) class_B) ''say'' = Some invalidated
     \<and> et_variables invalidated = None"
    by (simp add: class_A_def class_B_def example_handler_def example_types_def declared_def
        typeclass_name_def say_type_def invalidated_def)
  have "get_event_types example_handler (Obj 2 class_B) ''say'' = None
      \<and> get_event_types example_handler (Obj 1 class_A) ''say'' = Some say_type"
    using get_event_types_breadth_first [THEN conjunct2, THEN mp, OF h] .
  with h show ?thesis
    by (simp add: room_a_def room_b_def)
qed

subsection \<open>Event store: \<^verbatim>\<open>del_event\<close>\<close>

text \<open>The three loops of \<^verbatim>\<open>del_event\<close> as maps and filters over the lists they walk.\<close>

lemma del_insert_at: "i < length xs \<Longrightarrow> del_at (insert_at xs i x) (Suc i) = take i xs @ x # drop (Suc i) xs"
  by (simp add: del_at_def insert_at_def min_def Suc_diff_le drop_Cons')

lemma renumber_to_valid_eq:
  "0 \<le> i \<Longrightarrow> renumber_to_valid obj event_name k i tv =
     take (nat i) tv @ map (shift_down obj event_name k)
       (filter (\<lambda>entry. entry \<noteq> (obj, event_name, k)) (drop (nat i) tv))"
proof (induction obj event_name k i tv rule: renumber_to_valid.induct)
  case (1 obj event_name number i tv)
  show ?case
  proof (cases "i < int (length tv)")
    case False
    with "1.prems" show ?thesis by (subst renumber_to_valid.simps) simp
  next
    case True
    define j where "j = nat i"
    have j: "j < length tv" "int j = i" "nat (i + 1) = Suc j" "nat i = j"
      using True "1.prems" by (auto simp: j_def)
    obtain t_obj t_event_name t_number where e: "tv ! j = (t_obj, t_event_name, t_number)"
      by (cases "tv ! j")
    have d: "drop j tv = (t_obj, t_event_name, t_number) # drop (Suc j) tv"
      using j(1) e by (simp add: Cons_nth_drop_Suc [symmetric])
    have t: "take (Suc j) tv = take j tv @ [(t_obj, t_event_name, t_number)]"
      using j(1) e by (simp add: take_Suc_conv_app_nth)
    show ?thesis
    proof (cases "obj = t_obj \<and> event_name = t_event_name")
      case False
      then have "renumber_to_valid obj event_name number i tv
          = renumber_to_valid obj event_name number (i + 1) tv"
        using True "1.prems" e j by (subst renumber_to_valid.simps) auto
      also have "\<dots> = take (nat (i + 1)) tv @ map (shift_down obj event_name number)
          (filter (\<lambda>entry. entry \<noteq> (obj, event_name, number)) (drop (nat (i + 1)) tv))"
        using "1.IH"(4) [of t_obj "(t_event_name, t_number)" t_event_name t_number]
          True "1.prems" e j False by auto
      finally show ?thesis
        using False j d t by (auto simp: shift_down_def)
    next
      case same: True
      show ?thesis
      proof (cases "t_number = number")
        case True
        have "renumber_to_valid obj event_name number i tv
            = renumber_to_valid obj event_name number i (del_at tv j)"
          using True \<open>i < int (length tv)\<close> "1.prems" e j same by (subst renumber_to_valid.simps) auto
        also have "\<dots> = take (nat i) (del_at tv j) @ map (shift_down obj event_name number)
            (filter (\<lambda>entry. entry \<noteq> (obj, event_name, number)) (drop (nat i) (del_at tv j)))"
          using "1.IH"(1) [of t_obj "(t_event_name, t_number)" t_event_name t_number]
            True \<open>i < int (length tv)\<close> "1.prems" e j same by auto
        finally show ?thesis
          using True same j d by (simp add: del_at_def min_def)
      next
        case False
        show ?thesis
        proof (cases "t_number > number")
          case True
          let ?tv = "del_at (insert_at tv j (t_obj, t_event_name, t_number - 1)) (Suc j)"
          have tv': "?tv = take j tv @ (t_obj, t_event_name, t_number - 1) # drop (Suc j) tv"
            using j(1) by (rule del_insert_at)
          have "renumber_to_valid obj event_name number i tv
              = renumber_to_valid obj event_name number (i + 1) ?tv"
            using True False \<open>i < int (length tv)\<close> "1.prems" e j same
            by (subst renumber_to_valid.simps) auto
          also have "\<dots> = take (nat (i + 1)) ?tv @ map (shift_down obj event_name number)
              (filter (\<lambda>entry. entry \<noteq> (obj, event_name, number)) (drop (nat (i + 1)) ?tv))"
            using "1.IH"(2) [of t_obj "(t_event_name, t_number)" t_event_name t_number]
              True False \<open>i < int (length tv)\<close> "1.prems" e j same by auto
          finally show ?thesis
            using True False same j d by (simp add: tv' shift_down_def min_def)
        next
          case notgt: False
          have "renumber_to_valid obj event_name number i tv
              = renumber_to_valid obj event_name number (i + 1) tv"
            using notgt False \<open>i < int (length tv)\<close> "1.prems" e j same
            by (subst renumber_to_valid.simps) auto
          also have "\<dots> = take (nat (i + 1)) tv @ map (shift_down obj event_name number)
              (filter (\<lambda>entry. entry \<noteq> (obj, event_name, number)) (drop (nat (i + 1)) tv))"
            using "1.IH"(3) [of t_obj "(t_event_name, t_number)" t_event_name t_number]
              notgt False \<open>i < int (length tv)\<close> "1.prems" e j same by auto
          finally show ?thesis
            using notgt False same j d t by (auto simp: shift_down_def)
        qed
      qed
    qed
  qed
qed


lemma renumber_locked_eq:
  "renumber_locked obj event_name k i lk =
     take i lk @ map (shift_down obj event_name k) (drop i lk)"
proof (induction obj event_name k i lk rule: renumber_locked.induct)
  case (1 obj event_name number i lk)
  show ?case
  proof (cases "i < length lk")
    case False
    then show ?thesis by (subst renumber_locked.simps) simp
  next
    case True
    obtain t_obj t_event_name t_number where e: "lk ! i = (t_obj, t_event_name, t_number)"
      by (cases "lk ! i")
    have d: "drop i lk = (t_obj, t_event_name, t_number) # drop (Suc i) lk"
      using True e by (simp add: Cons_nth_drop_Suc [symmetric])
    have t: "take (Suc i) lk = take i lk @ [(t_obj, t_event_name, t_number)]"
      using True e by (simp add: take_Suc_conv_app_nth)
    show ?thesis
    proof (cases "obj = t_obj \<and> event_name = t_event_name \<and> number < t_number")
      case True
      let ?lk = "lk[i := (t_obj, t_event_name, t_number - 1)]"
      have "renumber_locked obj event_name number i lk
          = renumber_locked obj event_name number (Suc i) ?lk"
        using True \<open>i < length lk\<close> e by (subst renumber_locked.simps) auto
      also have "\<dots> = take (Suc i) ?lk @ map (shift_down obj event_name number) (drop (Suc i) ?lk)"
        using "1.IH"(1) [of t_obj "(t_event_name, t_number)" t_event_name t_number]
          True \<open>i < length lk\<close> e by auto
      finally show ?thesis
        using True \<open>i < length lk\<close> d
        by (simp add: shift_down_def take_Suc_conv_app_nth)
    next
      case False
      have "renumber_locked obj event_name number i lk
          = renumber_locked obj event_name number (Suc i) lk"
        using False \<open>i < length lk\<close> e by (subst renumber_locked.simps) auto
      also have "\<dots> = take (Suc i) lk @ map (shift_down obj event_name number) (drop (Suc i) lk)"
      proof (cases "obj = t_obj \<and> event_name = t_event_name")
        case True
        then show ?thesis
          using "1.IH"(2) [of t_obj "(t_event_name, t_number)" t_event_name t_number]
            False \<open>i < length lk\<close> e by auto
      next
        case notsame: False
        then show ?thesis
          using "1.IH"(3) [of t_obj "(t_event_name, t_number)" t_event_name t_number]
            \<open>i < length lk\<close> e by auto
      qed
      finally show ?thesis
        using False d t by (auto simp: shift_down_def)
    qed
  qed
qed

lemma update_scripts_eq: "update_scripts obj event_name k scripts = map (rebind obj event_name k) scripts"
  by (induction scripts) (auto simp: rebind_def split: option.splits)

lemma py_index_in_range: "0 \<le> k \<Longrightarrow> k < int (length xs) \<Longrightarrow> py_index xs k = Some (nat k)"
  by (simp add: py_index_def)

text \<open>
  Claim C2. Let the fragment list of \<open>(obj, event_name)\<close> have a fragment at index \<open>k\<close>
  (so \<open>0 \<le> k < len\<close>, and the list has at least one fragment), not locked. Then
  \<^verbatim>\<open>del_event\<close> returns normally; the list loses its fragment \<open>k\<close> and no other list
  changes; the validation queue loses its entries equal to \<open>(obj, event_name, k)\<close> and
  its entries for \<open>(obj, event_name)\<close> with a higher index are moved down by one; the
  same move is made in the lock set; a \<^verbatim>\<open>TimeEventScript\<close> of \<open>obj\<close> bound to
  \<open>(event_name, k)\<close> is stopped and one bound to a higher index is bound to the index
  below; all other entries and scripts, those of other objects and other event names
  among them, are as before (\<open>shift_down\<close>, \<open>rebind\<close>).
\<close>

theorem del_event_renumbers:
  assumes "0 \<le> k" and "k < int (length (fragments_of self obj event_name))"
    and "(obj, event_name, k) \<notin> set (locked self)"
  shows "del_event self scripts obj event_name k =
    (Inr (),
     self\<lparr>events := (events self)(obj \<mapsto> (events_of self obj)(event_name \<mapsto>
              take (nat k) (fragments_of self obj event_name)
              @ drop (Suc (nat k)) (fragments_of self obj event_name))),
          to_valid := map (shift_down obj event_name k)
                        (filter (\<lambda>entry. entry \<noteq> (obj, event_name, k)) (to_valid self)),
          locked := map (shift_down obj event_name k) (locked self)\<rparr>,
     map (rebind obj event_name k) scripts,
     [LogInfoDeleting event_name k obj (code (fragments_of self obj event_name ! nat k))])"
  using assms
  by (simp add: del_event_def py_index_in_range renumber_to_valid_eq renumber_locked_eq
      update_scripts_eq del_at_def Let_def)

lemma example_fragments:
  "fragments_of example_handler room_a ''say'' = [fragment False ''a'', fragment False ''b'', fragment False ''c'']"
  by (simp add: fragments_of_def events_of_def example_handler_def)

theorem del_event_renumbers_witness:
  "0 \<le> (1::int) \<and> 1 < int (length (fragments_of example_handler room_a ''say''))
   \<and> (room_a, ''say'', 1) \<notin> set (locked example_handler)
   \<and> del_event example_handler example_scripts room_a ''say'' 1 =
      (Inr (),
       example_handler
         \<lparr>events := (events example_handler)(room_a \<mapsto> (events_of example_handler room_a)
                      (''say'' \<mapsto> [fragment False ''a'', fragment False ''c''])),
          to_valid := [(room_a, ''say'', 0), (room_b, ''say'', 2), (room_a, ''say'', 1),
                       (room_a, ''look'', 2)],
          locked := [(room_a, ''say'', 1), (room_b, ''tick'', 5), (room_a, ''look'', 2)]\<rparr>,
       [time_script room_a ''say'' 0, (time_script room_a ''say'' 1)\<lparr>is_active := False\<rparr>,
        time_script room_a ''say'' 1, time_script room_b ''say'' 2, time_script room_a ''time'' 2,
        \<lparr>is_time_event = False, script_obj = room_a, script_event_name = Some ''say'',
         script_number = Some 2, is_active = True\<rparr>],
       [LogInfoDeleting ''say'' 1 room_a ''b''])"
proof -
  have h1: "0 \<le> (1::int)" by simp
  have h2: "1 < int (length (fragments_of example_handler room_a ''say''))"
    by (simp add: example_fragments)
  have h3: "(room_a, ''say'', 1) \<notin> set (locked example_handler)"
    by (simp add: example_handler_def)
  have rooms: "room_a \<noteq> room_b" "room_b \<noteq> room_a"
    by (simp_all add: room_a_def room_b_def)
  have tv: "map (shift_down room_a ''say'' 1)
      (filter (\<lambda>entry. entry \<noteq> (room_a, ''say'', 1)) (to_valid example_handler))
    = [(room_a, ''say'', 0), (room_b, ''say'', 2), (room_a, ''say'', 1), (room_a, ''look'', 2)]"
    using rooms by (simp add: example_handler_def shift_down_def)
  have lk: "map (shift_down room_a ''say'' 1) (locked example_handler)
    = [(room_a, ''say'', 1), (room_b, ''tick'', 5), (room_a, ''look'', 2)]"
    using rooms by (simp add: example_handler_def shift_down_def)
  have sc: "map (rebind room_a ''say'' 1) example_scripts
    = [time_script room_a ''say'' 0, (time_script room_a ''say'' 1)\<lparr>is_active := False\<rparr>,
       time_script room_a ''say'' 1, time_script room_b ''say'' 2, time_script room_a ''time'' 2,
       \<lparr>is_time_event = False, script_obj = room_a, script_event_name = Some ''say'',
        script_number = Some 2, is_active = True\<rparr>]"
    using rooms by (simp add: example_scripts_def rebind_def stop_def time_script_def)
  have fr: "take (nat 1) (fragments_of example_handler room_a ''say'')
        @ drop (Suc (nat 1)) (fragments_of example_handler room_a ''say'')
      = [fragment False ''a'', fragment False ''c'']"
    "code (fragments_of example_handler room_a ''say'' ! nat 1) = ''b''"
    by (simp_all add: example_fragments fragment_def)
  show ?thesis
    unfolding del_event_renumbers [OF h1 h2 h3] tv lk sc fr
    using h2 h3 by simp
qed

text \<open>
  Claim C10. \<^verbatim>\<open>del_event\<close> looks at the lock set before it looks for the fragment:
  for a tuple in the lock set it raises \<^verbatim>\<open>RuntimeError\<close> ("this event is locked")
  whether or not a fragment exists at that index; for a tuple that is not locked and
  whose index is out of range it returns without a log line and leaves the handler
  (fragment lists, validation queue, lock set) and the scripts as they were.
\<close>

theorem del_event_lock_first:
  "((obj, event_name, number) \<in> set (locked self) \<longrightarrow>
      del_event self scripts obj event_name number = (Inl RuntimeError, self, scripts, []))
   \<and> ((obj, event_name, number) \<notin> set (locked self)
        \<and> (int (length (fragments_of self obj event_name)) \<le> number
             \<or> number < - int (length (fragments_of self obj event_name))) \<longrightarrow>
      del_event self scripts obj event_name number = (Inr (), self, scripts, []))"
  by (auto simp: del_event_def py_index_def Let_def)

theorem del_event_lock_first_witness:
  "(room_b, ''tick'', 5) \<in> set (locked example_handler)
   \<and> fragments_of example_handler room_b ''tick'' = []
   \<and> del_event example_handler example_scripts room_b ''tick'' 5
       = (Inl RuntimeError, example_handler, example_scripts, [])
   \<and> (room_a, ''say'', 3) \<notin> set (locked example_handler)
   \<and> int (length (fragments_of example_handler room_a ''say'')) \<le> 3
   \<and> del_event example_handler example_scripts room_a ''say'' 3
       = (Inr (), example_handler, example_scripts, [])"
proof -
  have rooms: "room_a \<noteq> room_b" "room_b \<noteq> room_a"
    by (simp_all add: room_a_def room_b_def)
  have l: "(room_b, ''tick'', 5) \<in> set (locked example_handler)"
    by (simp add: example_handler_def)
  have e: "fragments_of example_handler room_b ''tick'' = []"
    using rooms by (simp add: fragments_of_def events_of_def example_handler_def)
  have u: "(room_a, ''say'', 3) \<notin> set (locked example_handler)
      \<and> (int (length (fragments_of example_handler room_a ''say'')) \<le> 3
          \<or> 3 < - int (length (fragments_of example_handler room_a ''say'')))"
    using rooms by (simp add: example_fragments) (simp add: example_handler_def)
  have "del_event example_handler example_scripts room_b ''tick'' 5
      = (Inl RuntimeError, example_handler, example_scripts, [])"
    using del_event_lock_first [THEN conjunct1, THEN mp, OF l] .
  moreover have "del_event example_handler example_scripts room_a ''say'' 3
      = (Inr (), example_handler, example_scripts, [])"
    using del_event_lock_first [THEN conjunct2, THEN mp, OF u] .
  ultimately show ?thesis
    using l e u by (simp add: example_fragments)
qed

subsection \<open>Dispatch: \<^verbatim>\<open>call_event\<close>\<close>

text \<open>Facts about the example data.\<close>

lemma example_event_types:
  "get_event_types example_handler room_a = [''say'' \<mapsto> say_type, ''tick'' \<mapsto> plain_type, ''enter'' \<mapsto> plain_type]"
  by (simp add: get_event_types_def room_a_def class_A_def object_class_def example_handler_def
      example_types_def declared_def typeclass_name_def say_type_def plain_type_def)

lemma no_unknown_keywords: "\<not> unknown_keywords no_kwargs"
  by (simp add: unknown_keywords_def no_kwargs_def kwargs_keys_def)

lemma no_kwargs_simps:
  "kw_number no_kwargs = None" "kw_parameters no_kwargs = None" "kw_locals no_kwargs = None"
  by (simp_all add: no_kwargs_def)

lemma example_fresh_locals: "fresh_locals example_handler = []"
  by (simp add: example_handler_def)

lemma example_linked_events:
  "linked_events example_handler room_a name (Some plain_type) None
     = map (\<lambda>(i, event). definition_of room_a name (int i) event)
           (enumerate 0 (fragments_of example_handler room_a name))"
  by (auto simp: linked_events_def get_events_def fragments_of_def plain_type_def Let_def
      split: option.splits)

lemma example_enter:
  "fragments_of example_handler room_a ''enter''
     = [fragment True ''a'', fragment True ''deny()'', fragment True ''b'']"
  by (simp add: fragments_of_def events_of_def example_handler_def)

lemma example_tick:
  "fragments_of example_handler room_a ''tick''
     = [fragment True ''a'', fragment True ''1/0'', fragment True ''b'']"
  by (simp add: fragments_of_def events_of_def example_handler_def)

lemma example_prepare_locals:
  "prepare_locals example_handler (Some plain_type) [] None = Inr []"
  by (simp add: prepare_locals_def plain_type_def example_fresh_locals)

lemma example_tasks: "tasks example_handler = [(0, (10, room_a, ''tick'', [(''x'', 5)]))]"
  "task_id example_handler = 1"
  "current_locals example_handler = [(''x'', 5), (''callback'', - 1), (''y'', 0)]"
  by (simp_all add: example_handler_def)

text \<open>With fewer arguments than variables the binding loop stops at the first variable
  that has no argument.\<close>

lemma bind_variables_short:
  "i \<le> length args \<Longrightarrow> length args < i + length variables \<Longrightarrow>
   bind_variables variables i args locals = Inl (variables ! (length args - i), length args)"
proof (induction variables arbitrary: i locals)
  case Nil
  then show ?case by simp
next
  case (Cons variable rest)
  show ?case
  proof (cases "i < length args")
    case True
    then have "bind_variables rest (Suc i) args (AList.update variable (args ! i) locals)
        = Inl (rest ! (length args - Suc i), length args)"
      using Cons.prems by (intro Cons.IH) simp_all
    moreover have "(variable # rest) ! (length args - i) = rest ! (length args - Suc i)"
      using True by (simp add: nth_Cons')
    ultimately show ?thesis
      using True by simp
  next
    case False
    then have "i = length args" using Cons.prems by simp
    then show ?thesis by simp
  qed
qed

text \<open>
  Claim C7. A call without the \<^verbatim>\<open>locals\<close> keyword (and with no unknown keyword), for
  an event type that declares more variables than the call has positional arguments,
  returns \<^verbatim>\<open>False\<close>; its only effect is the trace log line naming the first variable
  without an argument and its position: no fragment is run and the handler is as
  before.
\<close>

theorem call_event_binding_fails:
  assumes "\<not> unknown_keywords kwargs" and "kw_locals kwargs = None"
    and "get_event_types self obj event_name = Some et"
    and "et_variables et = Some variables"
    and "length args < length variables"
  shows "call_event exec self obj event_name args kwargs =
    (Inr False, self,
     [LogTraceNeedVariable event_name obj (obj_type obj) (variables ! length args) (length args)])"
  using assms bind_variables_short [of 0 args variables "fresh_locals self"]
  by (simp add: call_event_def prepare_locals_def)

theorem call_event_binding_fails_witness:
  "\<not> unknown_keywords no_kwargs \<and> kw_locals no_kwargs = None
   \<and> get_event_types example_handler room_a ''say'' = Some say_type
   \<and> et_variables say_type = Some [''speaker'', ''message'']
   \<and> length [7::int] < length [''speaker'', ''message'']
   \<and> call_event example_exec example_handler room_a ''say'' [7] no_kwargs =
       (Inr False, example_handler,
        [LogTraceNeedVariable ''say'' room_a class_A ''message'' 1])"
proof -
  have h1: "\<not> unknown_keywords no_kwargs" by (rule no_unknown_keywords)
  have h2: "kw_locals no_kwargs = None" by (simp add: no_kwargs_def)
  have h3: "get_event_types example_handler room_a ''say'' = Some say_type"
    by (simp add: example_event_types)
  have h4: "et_variables say_type = Some [''speaker'', ''message'']"
    by (simp add: say_type_def)
  have h5: "length [7::int] < length [''speaker'', ''message'']" by simp
  show ?thesis
    using call_event_binding_fails [OF h1 h2 h3 h4 h5, of example_exec] h1 h2 h3 h4
    by (simp add: room_a_def)
qed

text \<open>The loop over a list \<open>pre @ post\<close> is the loop over \<open>pre\<close> and, unless that ended the
  call, the loop over \<open>post\<close> from the state reached.\<close>

lemma run_events_append:
  "run_events exec obj event_name number locals (pre @ post) =
     (case run_events exec obj event_name number locals pre of
        (Inr True, number', locals', effects) \<Rightarrow>
          (case run_events exec obj event_name number' locals' post of
             (r, number'', locals'', effects') \<Rightarrow> (r, number'', locals'', effects @ effects'))
      | (r, number', locals', effects) \<Rightarrow> (r, number', locals', effects))"
proof (induction pre arbitrary: number locals)
  case Nil
  then show ?case by (simp split: prod.splits)
next
  case (Cons event pre)
  show ?case
    by (simp add: Cons.IH Let_def split: outcome.splits prod.splits sum.splits bool.splits)
qed

text \<open>
  Claim C6. When the loop reaches a fragment that it runs (valid, and not filtered out
  by \<^verbatim>\<open>number\<close>) and the fragment raises \<^verbatim>\<open>InterruptEvent\<close>, the call returns
  \<^verbatim>\<open>False\<close> at once: the fragments run are those run before it and the interrupting
  one, and none of the fragments after it. For three valid fragments of which the
  second interrupts, one fragment runs before it and none after it.
\<close>

theorem call_event_interrupt:
  assumes "\<not> unknown_keywords kwargs"
    and "kw_locals kwargs = None \<longrightarrow> get_event_types self obj event_name \<noteq> None"
    and "prepare_locals self (get_event_types self obj event_name) args (kw_locals kwargs) = Inr locals"
    and "linked_events self obj event_name (get_event_types self obj event_name) (kw_parameters kwargs)
           = pre @ event # post"
    and "run_events exec obj event_name (kw_number kwargs) locals pre = (Inr True, number', locals', effects)"
    and "valid event" and "number' = None \<or> number' = Some (ev_number event)"
    and "exec (code event) locals' = InterruptEvent locals''"
  shows "call_event exec self obj event_name args kwargs =
    (Inr False, self\<lparr>current_locals := locals''\<rparr>, effects @ [Exec event])
    \<and> executed (effects @ [Exec event]) = executed effects @ [event]"
proof -
  have "run_events exec obj event_name number' locals' (event # post)
      = (Inr False, number', locals'', [Exec event])"
    using assms(6,7,8) by auto
  then have "run_events exec obj event_name (kw_number kwargs) locals (pre @ event # post)
      = (Inr False, number', locals'', effects @ [Exec event])"
    using assms(5) by (simp add: run_events_append)
  moreover have "executed (xs @ [Exec event]) = executed xs @ [event]" for xs
    by (induction xs rule: executed.induct) simp_all
  ultimately show ?thesis
    using assms(1-4) by (auto simp: call_event_def Let_def)
qed

theorem call_event_interrupt_witness:
  "call_event example_exec example_handler room_a ''enter'' [] no_kwargs =
     (Inr False, example_handler\<lparr>current_locals := [(''a'', 1)]\<rparr>,
      [Exec (definition_of room_a ''enter'' 0 (fragment True ''a'')),
       Exec (definition_of room_a ''enter'' 1 (fragment True ''deny()''))])"
proof -
  let ?e0 = "definition_of room_a ''enter'' 0 (fragment True ''a'')"
  let ?e1 = "definition_of room_a ''enter'' 1 (fragment True ''deny()'')"
  let ?e2 = "definition_of room_a ''enter'' 2 (fragment True ''b'')"
  have t: "get_event_types example_handler room_a ''enter'' = Some plain_type"
    by (simp add: example_event_types)
  have h1: "\<not> unknown_keywords no_kwargs" by (rule no_unknown_keywords)
  have h2: "kw_locals no_kwargs = None \<longrightarrow> get_event_types example_handler room_a ''enter'' \<noteq> None"
    by (simp add: t)
  have h3: "prepare_locals example_handler (get_event_types example_handler room_a ''enter'') []
      (kw_locals no_kwargs) = Inr []"
    by (simp add: t prepare_locals_def no_kwargs_simps plain_type_def example_fresh_locals)
  have h4: "linked_events example_handler room_a ''enter''
      (get_event_types example_handler room_a ''enter'') (kw_parameters no_kwargs)
      = [?e0] @ ?e1 # [?e2]"
    by (simp add: t no_kwargs_simps example_linked_events example_enter)
  have h5: "run_events example_exec room_a ''enter'' (kw_number no_kwargs) [] [?e0]
      = (Inr True, None, [(''a'', 1)], [Exec ?e0])"
    by (simp add: no_kwargs_simps definition_of_def fragment_def example_exec_def)
  have h6: "valid ?e1" by (simp add: definition_of_def fragment_def)
  have h7: "(None :: int option) = None \<or> None = Some (ev_number ?e1)" by simp
  have h8: "example_exec (code ?e1) [(''a'', 1)] = InterruptEvent [(''a'', 1)]"
    by (simp add: definition_of_def fragment_def example_exec_def)
  show ?thesis
    using call_event_interrupt [OF h1 h2 h3 h4 h5 h6 h7 h8] by simp
qed

text \<open>The call of \<open>tick\<close> on the example: three valid fragments, the second divides by
  zero.\<close>

lemma example_tick_call:
  "call_event example_exec example_handler room_a ''tick'' [] no_kwargs =
     (Inr True, example_handler\<lparr>current_locals := [(''a'', 1)]\<rparr>,
      [Exec (definition_of room_a ''tick'' 0 (fragment True ''a'')),
       Exec (definition_of room_a ''tick'' 1 (fragment True ''1/0'')),
       LogErrEvent ''tick'' room_a 1 2
         [''Traceback (most recent call last):'', file_string_line @ ''1, in <module>'',
          ''ZeroDivisionError: integer division or modulo by zero''],
       ChannelMsg ''tick'' room_a 1 2 (Lineno 1) ''1/0'' ''ZeroDivisionError()''])"
proof -
  let ?e0 = "definition_of room_a ''tick'' 0 (fragment True ''a'')"
  let ?e1 = "definition_of room_a ''tick'' 1 (fragment True ''1/0'')"
  let ?e2 = "definition_of room_a ''tick'' 2 (fragment True ''b'')"
  let ?trace = "[''Traceback (most recent call last):'', file_string_line @ ''1, in <module>'',
          ''ZeroDivisionError: integer division or modulo by zero'']"
  have t: "get_event_types example_handler room_a ''tick'' = Some plain_type"
    by (simp add: example_event_types)
  have l: "find_line ''1/0'' ?trace (UnknownLine, unknown) = (Lineno 1, ''1/0'')"
    by (simp add: startswith_def file_string_line_def re_line_error_def is_digit_def
        int_of_digits_def splitlines_def py_getitem_def py_index_def)
  have ev: "linked_events example_handler room_a ''tick'' (Some plain_type) None = [?e0, ?e1, ?e2]"
    by (simp add: example_linked_events example_tick)
  have i: "obj_id room_a = 1" by (simp add: room_a_def)
  have run: "run_events example_exec room_a ''tick'' None [] [?e0, ?e1, ?e2]
      = (Inr True, Some 1, [(''a'', 1)],
         [Exec ?e0, Exec ?e1, LogErrEvent ''tick'' room_a 1 2 ?trace,
          ChannelMsg ''tick'' room_a 1 2 (Lineno 1) ''1/0'' ''ZeroDivisionError()''])"
    by (simp add: definition_of_def fragment_def example_exec_def l i del: find_line.simps)
  show ?thesis
    by (simp add: call_event_def no_unknown_keywords t no_kwargs_simps example_prepare_locals
        ev run del: run_events.simps)
qed

text \<open>After a fault the loop goes on with \<^verbatim>\<open>number\<close> set to the number of the
  faulting fragment: fragments with another number are passed over.\<close>

lemma run_events_other_numbers:
  "list_all (\<lambda>e. ev_number e \<noteq> n) evs \<Longrightarrow>
   run_events exec obj event_name (Some n) locals evs = (Inr True, Some n, locals, [])"
  by (induction evs) auto

lemma run_events_fault_filters:
  assumes "valid event" and "number = None \<or> number = Some (ev_number event)"
    and "exec (code event) locals = Exception locals' trace evalue"
    and "list_all (\<lambda>e. ev_number e \<noteq> ev_number event) rest"
  shows "run_events exec obj event_name number locals (event # rest) =
    (Inr True, Some (ev_number event), locals',
     [Exec event,
      LogErrEvent event_name obj (obj_id obj) (ev_number event + 1) trace,
      ChannelMsg event_name obj (obj_id obj) (ev_number event + 1)
        (fst (find_line (code event) trace (UnknownLine, unknown)))
        (snd (find_line (code event) trace (UnknownLine, unknown))) evalue])"
  using assms run_events_other_numbers [OF assms(4), of exec obj event_name locals']
  by (auto simp: Let_def split: prod.splits)

text \<open>
  Claim C1, which the code does not meet. The claim: of three valid fragments of which
  the second raises a fault that is not an interrupt, the third still runs, the call
  returns \<^verbatim>\<open>True\<close>, and one message goes to the error channel, naming fragment 2. The
  code: the handler of the fault assigns \<^verbatim>\<open>number = event["number"]\<close>, and
  \<^verbatim>\<open>number\<close> is the variable the loop filters on, so after a fault only fragments
  with the number of the faulting one are run. On the example the call returns
  \<^verbatim>\<open>True\<close> and sends the one message naming fragment 2, but the third fragment,
  which is valid, is not run.
\<close>

theorem call_event_fault_skips_later_fragments:
  "call_event example_exec example_handler room_a ''tick'' [] no_kwargs =
     (Inr True, example_handler\<lparr>current_locals := [(''a'', 1)]\<rparr>,
      [Exec (definition_of room_a ''tick'' 0 (fragment True ''a'')),
       Exec (definition_of room_a ''tick'' 1 (fragment True ''1/0'')),
       LogErrEvent ''tick'' room_a 1 2
         [''Traceback (most recent call last):'', file_string_line @ ''1, in <module>'',
          ''ZeroDivisionError: integer division or modulo by zero''],
       ChannelMsg ''tick'' room_a 1 2 (Lineno 1) ''1/0'' ''ZeroDivisionError()''])
   \<and> linked_events example_handler room_a ''tick''
         (get_event_types example_handler room_a ''tick'') (kw_parameters no_kwargs)
       = [definition_of room_a ''tick'' 0 (fragment True ''a''),
          definition_of room_a ''tick'' 1 (fragment True ''1/0''),
          definition_of room_a ''tick'' 2 (fragment True ''b'')]
   \<and> valid (definition_of room_a ''tick'' 2 (fragment True ''b''))
   \<and> executed (snd (snd (call_event example_exec example_handler room_a ''tick'' [] no_kwargs)))
       = [definition_of room_a ''tick'' 0 (fragment True ''a''),
          definition_of room_a ''tick'' 1 (fragment True ''1/0'')]"
proof -
  have t: "get_event_types example_handler room_a ''tick'' = Some plain_type"
    by (simp add: example_event_types)
  show ?thesis
    unfolding example_tick_call
    by (simp add: t no_kwargs_simps example_linked_events example_tick)
      (simp add: definition_of_def fragment_def)
qed

text \<open>An unknown keyword with a name that is not empty is refused before anything else
  is done.\<close>

lemma call_event_unknown_keyword:
  "k \<in> set (kw_others kwargs) \<Longrightarrow> k \<notin> set allowed \<Longrightarrow> k \<noteq> [] \<Longrightarrow>
   call_event exec self obj event_name args kwargs = (Inl TypeError, self, [])"
proof -
  assume "k \<in> set (kw_others kwargs)" "k \<notin> set allowed" "k \<noteq> []"
  then have "unknown_keywords kwargs"
    by (auto simp: unknown_keywords_def kwargs_keys_def list_ex_iff)
  then show ?thesis by (simp add: call_event_def)
qed

text \<open>
  Claim C9, which the code does not meet. The claim: every call with a keyword argument
  other than \<^verbatim>\<open>number\<close>, \<^verbatim>\<open>parameters\<close> and \<^verbatim>\<open>locals\<close> raises \<^verbatim>\<open>TypeError\<close>
  before the event type is resolved. The code tests
  \<^verbatim>\<open>any(k for k in kwargs if k not in allowed)\<close>, which is the truth value of the
  unknown names and not their presence: a call with the keyword whose name is the empty
  string (\<^verbatim>\<open>call_event(obj, "say", 1, 2, **{"": 0})\<close>) is dispatched as if the keyword
  were not there.
\<close>

theorem call_event_empty_keyword:
  "kwargs_keys (no_kwargs\<lparr>kw_others := ['''']\<rparr>) = ['''']
   \<and> '''' \<notin> set allowed
   \<and> call_event example_exec example_handler room_a ''say'' [1, 2] (no_kwargs\<lparr>kw_others := ['''']\<rparr>)
       = (Inr True, example_handler\<lparr>current_locals := [(''speaker'', 1), (''message'', 2)]\<rparr>, [])"
proof -
  let ?kwargs = "no_kwargs\<lparr>kw_others := ['''']\<rparr>"
  have k: "kwargs_keys ?kwargs = ['''']" "'''' \<notin> set allowed"
    by (simp_all add: kwargs_keys_def no_kwargs_def allowed_def)
  have u: "\<not> unknown_keywords ?kwargs"
    by (simp add: unknown_keywords_def k)
  have kw: "kw_number ?kwargs = None" "kw_parameters ?kwargs = None" "kw_locals ?kwargs = None"
    by (simp_all add: no_kwargs_def)
  have t: "get_event_types example_handler room_a ''say'' = Some say_type"
    by (simp add: example_event_types)
  have p: "prepare_locals example_handler (Some say_type) [1, 2] None
      = Inr [(''speaker'', 1), (''message'', 2)]"
    by (simp add: prepare_locals_def say_type_def example_fresh_locals)
  have ev: "linked_events example_handler room_a ''say'' (Some say_type) None
      = [definition_of room_a ''say'' 0 (fragment False ''a''),
         definition_of room_a ''say'' 1 (fragment False ''b''),
         definition_of room_a ''say'' 2 (fragment False ''c'')]"
    by (simp add: linked_events_def get_events_def fragments_of_def events_of_def
        example_handler_def say_type_def)
  have run: "run_events example_exec room_a ''say'' None [(''speaker'', 1), (''message'', 2)]
        [definition_of room_a ''say'' 0 (fragment False ''a''),
         definition_of room_a ''say'' 1 (fragment False ''b''),
         definition_of room_a ''say'' 2 (fragment False ''c'')]
      = (Inr True, None, [(''speaker'', 1), (''message'', 2)], [])"
    by (simp add: definition_of_def fragment_def)
  show ?thesis
    by (simp add: k call_event_def u kw t p ev run del: run_events.simps)
qed

subsection \<open>Tasks\<close>

text \<open>\<^verbatim>\<open>call_event\<close> changes nothing of the handler but \<^verbatim>\<open>current_locals\<close>.\<close>

lemma call_event_state:
  "fst (snd (call_event exec self obj event_name args kwargs))
     = self\<lparr>current_locals := current_locals (fst (snd (call_event exec self obj event_name args kwargs)))\<rparr>"
  by (simp add: call_event_def Let_def split: sum.splits option.splits prod.splits)

lemma call_event_tasks:
  "tasks (fst (snd (call_event exec self obj event_name args kwargs))) = tasks self"
  by (subst call_event_state) simp

text \<open>
  Claim C5. Completing a stored task id removes its record and is one call of
  \<^verbatim>\<open>call_event\<close> for the stored object and event name with the stored snapshot as the
  \<^verbatim>\<open>locals\<close> keyword, on the handler without the record; the handler left behind
  differs from that one at most in \<^verbatim>\<open>current_locals\<close>. Completing the same id again
  finds no record: it logs the error "cannot be found", runs nothing and leaves the
  handler as it is.
\<close>

theorem complete_task_pops:
  assumes "map_of (tasks script) tid = Some (future, obj, event_name, locals)"
  shows "(let popped = script\<lparr>tasks := AList.delete tid (tasks script)\<rparr>;
              dispatch = call_event exec popped obj event_name []
                 \<lparr>kw_number = None, kw_parameters = None, kw_locals = Some locals, kw_others = []\<rparr>;
              first = complete_task exec (Some script) tid;
              db = fst (snd first)
          in first = (map_sum id (\<lambda>_. ()) (fst dispatch), Some (fst (snd dispatch)), snd (snd dispatch))
             \<and> db = Some (popped\<lparr>current_locals := current_locals (fst (snd dispatch))\<rparr>)
             \<and> complete_task exec db tid = (Inr (), db, [LogErrTask tid]))"
proof -
  let ?popped = "script\<lparr>tasks := AList.delete tid (tasks script)\<rparr>"
  let ?dispatch = "call_event exec ?popped obj event_name []
      \<lparr>kw_number = None, kw_parameters = None, kw_locals = Some locals, kw_others = []\<rparr>"
  have first: "complete_task exec (Some script) tid
      = (map_sum id (\<lambda>_. ()) (fst ?dispatch), Some (fst (snd ?dispatch)), snd (snd ?dispatch))"
    using assms by (simp add: complete_task_def split: prod.splits)
  have state: "fst (snd ?dispatch) = ?popped\<lparr>current_locals := current_locals (fst (snd ?dispatch))\<rparr>"
    by (rule call_event_state)
  have "map_of (tasks (fst (snd ?dispatch))) tid = None"
    by (simp add: call_event_tasks AList.delete_conv')
  then have second: "complete_task exec (Some (fst (snd ?dispatch))) tid
      = (Inr (), Some (fst (snd ?dispatch)), [LogErrTask tid])"
    by (simp add: complete_task_def)
  show ?thesis
    unfolding Let_def first using state second by simp
qed

theorem complete_task_pops_witness:
  "map_of (tasks example_handler) 0 = Some (10, room_a, ''tick'', [(''x'', 5)])
   \<and> (let popped = example_handler\<lparr>tasks := AList.delete 0 (tasks example_handler)\<rparr>;
           dispatch = call_event example_exec popped room_a ''tick'' []
              \<lparr>kw_number = None, kw_parameters = None, kw_locals = Some [(''x'', 5)], kw_others = []\<rparr>;
           first = complete_task example_exec (Some example_handler) 0;
           db = fst (snd first)
       in first = (map_sum id (\<lambda>_. ()) (fst dispatch), Some (fst (snd dispatch)), snd (snd dispatch))
          \<and> db = Some (popped\<lparr>current_locals := current_locals (fst (snd dispatch))\<rparr>)
          \<and> complete_task example_exec db 0 = (Inr (), db, [LogErrTask 0]))"
proof -
  have m: "map_of (tasks example_handler) 0 = Some (10, room_a, ''tick'', [(''x'', 5)])"
    by (simp add: example_tasks)
  show ?thesis
    using complete_task_pops [OF m, of example_exec] m by blast
qed




lemma microseconds_10: "microseconds 10 = Inr 10"
  by (simp add: microseconds_def round_half_away_def floor_eq_iff)


text \<open>An exception of \<^verbatim>\<open>timedelta\<close> ends \<^verbatim>\<open>set_task\<close> before anything is changed; a call
  that returns has stored the record with the fire time \<open>now + delta\<close>.\<close>

lemma set_task_overflow:
  "timedelta seconds = Inl e \<Longrightarrow>
   set_task timedelta dbserialize now self seconds obj event_name = (Inl e, self, [])"
  by (simp add: set_task_def)

lemma set_task_scheduled:
  assumes "timedelta seconds = Inr delta"
    and "fst (set_task timedelta dbserialize now self seconds obj event_name) = Inr ()"
  shows "\<exists>locals. tasks (fst (snd (set_task timedelta dbserialize now self seconds obj event_name)))
      = AList.update (task_id self) (now + delta, obj, event_name, locals) (tasks self)"
  using assms
  by (auto simp: set_task_def Let_def add_datetime_def split: sum.splits if_splits)




text \<open>The restart loop arms one timer for each stored task.\<close>

lemma restart_tasks_map:
  "restart_tasks now ts
     = map (\<lambda>(tid, future, obj, event_name, locals). Delay (max 0 (future - now)) tid) ts"
  by (induction ts rule: restart_tasks.induct) (auto simp: Let_def max_def)

lemma delays_of_absent:
  "tid \<notin> fst ` set ts \<Longrightarrow> delays_of tid (restart_tasks now ts) = []"
  by (induction ts) (auto simp: Let_def)

lemma delays_of_restart:
  "distinct (map fst ts) \<Longrightarrow> map_of ts tid = Some (future, obj, event_name, locals) \<Longrightarrow>
   delays_of tid (restart_tasks now ts) = [max 0 (future - now)]"
proof (induction ts)
  case Nil
  then show ?case by simp
next
  case (Cons item ts)
  obtain t f ob en lo where item: "item = (t, f, ob, en, lo)" by (cases item)
  show ?case
  proof (cases "t = tid")
    case True
    then have "tid \<notin> fst ` set ts" using Cons.prems(1) item by auto
    then have "delays_of tid (restart_tasks now ts) = []"
      by (rule delays_of_absent)
    then show ?thesis using True Cons.prems(2) item by (simp add: Let_def max_def)
  next
    case False
    then show ?thesis using Cons.prems Cons.IH item by (simp add: Let_def)
  qed
qed

lemma at_start_tasks:
  "tasks (fst (at_start connect_event_types all_from_module helpers_locations now self)) = tasks self"
  by (simp add: at_start_def Let_def)

text \<open>
  Claim C4. \<^verbatim>\<open>at_start\<close> arms, for every stored task and in the order of the items,
  one timer with the delay \<open>max 0 (future - now)\<close>, and keeps the tasks. With task ids
  stored once (a dictionary), the timers armed for a stored id are exactly that one.
  A task that \<^verbatim>\<open>set_task\<close> has scheduled with 10 seconds at the time \<open>t0\<close> (the call
  returned, and \<^verbatim>\<open>timedelta(seconds=10)\<close> is 10 seconds) is armed with 0 seconds by a
  start at \<open>t0 + 15\<close> and with 7 seconds by a start at \<open>t0 + 3\<close>.
\<close>

theorem at_start_rearms:
  assumes "distinct (map fst (tasks self))"
  shows "snd (at_start connect_event_types all_from_module helpers_locations now self)
      = map (\<lambda>(tid, future, obj, event_name, locals). Delay (max 0 (future - now)) tid) (tasks self)
    \<and> tasks (fst (at_start connect_event_types all_from_module helpers_locations now self)) = tasks self
    \<and> (map_of (tasks self) tid = Some (future, obj, event_name, locals) \<longrightarrow>
         delays_of tid (snd (at_start connect_event_types all_from_module helpers_locations now self))
           = [max 0 (future - now)])
    \<and> (timedelta 10 = Inr 10
        \<and> fst (set_task timedelta dbserialize t0 self 10 obj event_name) = Inr () \<longrightarrow>
        (let scheduled = fst (snd (set_task timedelta dbserialize t0 self 10 obj event_name)) in
         delays_of (task_id self)
            (snd (at_start connect_event_types all_from_module helpers_locations (t0 + 15) scheduled)) = [0]
         \<and> delays_of (task_id self)
            (snd (at_start connect_event_types all_from_module helpers_locations (t0 + 3) scheduled)) = [7]))"
proof -
  let ?scheduled = "fst (snd (set_task timedelta dbserialize t0 self 10 obj event_name))"
  have scenario: "delays_of (task_id self)
        (snd (at_start connect_event_types all_from_module helpers_locations (t0 + 15) ?scheduled)) = [0]
      \<and> delays_of (task_id self)
        (snd (at_start connect_event_types all_from_module helpers_locations (t0 + 3) ?scheduled)) = [7]"
    if ok: "timedelta 10 = Inr 10
      \<and> fst (set_task timedelta dbserialize t0 self 10 obj event_name) = Inr ()"
  proof -
    obtain snapshot where t: "tasks ?scheduled
        = AList.update (task_id self) (t0 + 10, obj, event_name, snapshot) (tasks self)"
      using set_task_scheduled [of timedelta 10 10 dbserialize t0 self obj event_name] ok by blast
    have d: "distinct (map fst (tasks ?scheduled))"
      using assms by (simp add: t distinct_update)
    have m: "map_of (tasks ?scheduled) (task_id self) = Some (t0 + 10, obj, event_name, snapshot)"
      by (simp add: t update_conv')
    have "delays_of (task_id self) (restart_tasks (t0 + 15) (tasks ?scheduled))
        = [max 0 (t0 + 10 - (t0 + 15))]"
      using d m by (rule delays_of_restart)
    moreover have "delays_of (task_id self) (restart_tasks (t0 + 3) (tasks ?scheduled))
        = [max 0 (t0 + 10 - (t0 + 3))]"
      using d m by (rule delays_of_restart)
    ultimately show ?thesis
      by (simp add: at_start_def Let_def)
  qed
  have effects: "snd (at_start connect_event_types all_from_module helpers_locations now self)
      = restart_tasks now (tasks self)"
    by (simp add: at_start_def Let_def)
  have one: "map_of (tasks self) tid = Some (future, obj, event_name, locals) \<longrightarrow>
      delays_of tid (restart_tasks now (tasks self)) = [max 0 (future - now)]"
    using assms delays_of_restart by blast
  show ?thesis
    unfolding Let_def effects
    using scenario one by (simp add: restart_tasks_map at_start_tasks)
qed

lemma example_set_task:
  "fst (set_task microseconds storable 100 example_handler 10 room_a ''tick'') = Inr ()"
  by (simp add: set_task_def microseconds_10 example_tasks storable_def add_datetime_def Let_def)

theorem at_start_rearms_witness:
  "distinct (map fst (tasks example_handler))
   \<and> map_of (tasks example_handler) 0 = Some (10, room_a, ''tick'', [(''x'', 5)])
   \<and> snd (at_start id (\<lambda>address. []) [] 4 example_handler) = [Delay 6 0]
   \<and> delays_of 0 (snd (at_start id (\<lambda>address. []) [] 4 example_handler)) = [6]
   \<and> microseconds 10 = Inr 10
   \<and> fst (set_task microseconds storable 100 example_handler 10 room_a ''tick'') = Inr ()
   \<and> delays_of 1 (snd (at_start id (\<lambda>address. []) [] (100 + 15)
         (fst (snd (set_task microseconds storable 100 example_handler 10 room_a ''tick''))))) = [0]
   \<and> delays_of 1 (snd (at_start id (\<lambda>address. []) [] (100 + 3)
         (fst (snd (set_task microseconds storable 100 example_handler 10 room_a ''tick''))))) = [7]"
proof -
  have h: "distinct (map fst (tasks example_handler))"
    by (simp add: example_tasks)
  have m: "map_of (tasks example_handler) 0 = Some (10, room_a, ''tick'', [(''x'', 5)])"
    by (simp add: example_tasks)
  have s: "microseconds 10 = Inr 10
      \<and> fst (set_task microseconds storable 100 example_handler 10 room_a ''tick'') = Inr ()"
    using microseconds_10 example_set_task by simp
  note w = at_start_rearms [where connect_event_types = id and all_from_module = "\<lambda>address. []"
      and helpers_locations = "[]" and now = 4 and tid = 0 and future = 10 and obj = room_a
      and event_name = "''tick''" and locals = "[(''x'', 5)]" and timedelta = microseconds
      and dbserialize = storable and ?t0.0 = 100, OF h]
  show ?thesis
    using w h m s by (simp add: example_tasks Let_def)
qed

end
